theory Spec2Isabelle
  imports Complex_Main
begin

section \<open>The private media library: metadata refresh, cache and listing\<close>

text \<open>
  A shallow embedding of the three TypeScript modules that make up the metadata
  pipeline: the OpenList client and the TMDB search helper (\<open>openlist.client.ts\<close>,
  which also carries \<open>tmdb.search\<close>), the refresh route (\<open>POST\<close>) and the list route
  (\<open>GET\<close>).

  Every awaited call is answered by an environment record, so that a handler is a
  function of the environment and of the process state.  JavaScript objects that
  are shared between the cache and a running handler live in an explicit store:
  a handler holds an address, and an assignment to a property of the object
  changes what every holder of the address reads.
\<close>

subsection \<open>JavaScript values\<close>

type_synonym path = string

text \<open>An awaited call either throws (the promise rejects) or returns.\<close>

datatype 'a js = Throws | Returns 'a

text \<open>
  \<open>fetch\<close>: the promise rejects (network failure, timeout, a body that is not
  JSON), or resolves with \<open>response.ok\<close> false and a status, or resolves with
  \<open>response.ok\<close> true and a body.
\<close>

datatype 'a reply = Rejected | HttpNotOk int | HttpOk 'a

text \<open>
  \<open>a || b\<close> on an optional string: \<open>undefined\<close>, \<open>null\<close> and the empty string are
  falsy.
\<close>

definition or_else :: "string option \<Rightarrow> string \<Rightarrow> string" where
  "or_else a b = (case a of None \<Rightarrow> b | Some s \<Rightarrow> if s = [] then b else s)"

definition truthy :: "string option \<Rightarrow> bool" where
  "truthy a = (case a of None \<Rightarrow> False | Some s \<Rightarrow> s \<noteq> [])"

text \<open>
  \<open>Array.prototype.slice(start, end)\<close> on integers: a negative index counts from
  the end of the array, and both indices are clamped to the array.
\<close>

definition slice :: "'a list \<Rightarrow> int \<Rightarrow> int \<Rightarrow> 'a list" where
  "slice xs start fin =
     (let len = int (length xs);
          k = (if start < 0 then max (len + start) 0 else min start len);
          final = (if fin < 0 then max (len + fin) 0 else min fin len)
      in take (nat (final - k)) (drop (nat k) xs))"

subsection \<open>The data model\<close>

text \<open>\<open>TMDBSearchResult\<close>: one entry of the provider's result list.\<close>

record TMDBSearchResult =
  r_id :: int
  r_title :: "string option"
  r_name :: "string option"
  r_poster_path :: "string option"
  r_release_date :: "string option"
  r_first_air_date :: "string option"
  r_overview :: string
  r_vote_average :: real
  r_media_type :: string

text \<open>The value stored under a folder name in \<open>MetaInfo.folders\<close>.\<close>

record FolderRecord =
  tmdb_id :: int
  title :: string
  poster_path :: "string option"
  release_date :: string
  overview :: string
  vote_average :: real
  media_type :: string
  last_updated :: int

text \<open>
  \<open>MetaInfo\<close>: the document.  \<open>folders\<close> is a JavaScript object used as a
  dictionary; it is kept as the list of its own properties, in the order
  \<open>Object.entries\<close> enumerates them.
\<close>

record MetaInfo =
  folders :: "(string \<times> FolderRecord) list"
  last_refresh :: int

text \<open>\<open>OpenListFile\<close>, \<open>OpenListListResponse\<close> and \<open>OpenListGetResponse\<close>.\<close>

record OpenListFile =
  name :: string
  size_bytes :: int
  is_dir :: bool
  modified :: string

record OpenListListResponse =
  list_code :: int
  content :: "OpenListFile list"

record OpenListGetResponse =
  get_code :: int
  raw_url :: "string option"

text \<open>
  What \<open>JSON.parse\<close> makes of the text of \<open>metainfo.json\<close>, as far as the two
  routes tell values apart: a falsy value (\<open>null\<close>, \<open>false\<close>, \<open>0\<close>, the empty
  string), a truthy value that is not an object (\<open>true\<close>, another number, another
  string), or an object.  Of an object the routes read the \<open>folders\<close> property,
  which is either unusable (missing, falsy, or not of type object) or an object.
  A text that is not JSON makes \<open>JSON.parse\<close> throw.
\<close>

datatype folders_field = NoFolders | Folders "(string \<times> FolderRecord) list"

datatype json_value = Falsy | Primitive | Object folders_field int

datatype parsed = SyntaxError | Parsed json_value

subsection \<open>Objects used as dictionaries\<close>

text \<open>
  \<open>obj[key]\<close> reads an own property or, failing that, one inherited from
  \<open>Object.prototype\<close>.  Both \<open>{}\<close> and the objects \<open>JSON.parse\<close> builds inherit
  the following names, each bound to a function or an object, hence truthy.
\<close>

definition inherited_names :: "string list" where
  "inherited_names =
     [''constructor'', ''__proto__'', ''hasOwnProperty'', ''isPrototypeOf'',
      ''propertyIsEnumerable'', ''toLocaleString'', ''toString'', ''valueOf'',
      ''__defineGetter__'', ''__defineSetter__'', ''__lookupGetter__'',
      ''__lookupSetter__'']"

definition own_key :: "(string \<times> 'v) list \<Rightarrow> string \<Rightarrow> bool" where
  "own_key obj k = (k \<in> fst ` set obj)"

text \<open>
  The test \<open>if (metaInfo.folders[folder.name])\<close>: a stored record is an object
  and so truthy; an inherited property is truthy as well.
\<close>

definition has_entry :: "(string \<times> 'v) list \<Rightarrow> string \<Rightarrow> bool" where
  "has_entry obj k = (own_key obj k \<or> k \<in> set inherited_names)"

text \<open>
  Own properties are enumerated with the canonical array indices first, in
  ascending numeric order, and the other names after them in the order of their
  creation.  A canonical array index is the decimal numeral of a number below
  \<open>2^32 - 1\<close>, without a leading zero.
\<close>

definition digit_of :: "char \<Rightarrow> nat option" where
  "digit_of c =
     (let n = of_char c :: nat in if 48 \<le> n \<and> n \<le> 57 then Some (n - 48) else None)"

fun decimal :: "nat \<Rightarrow> string \<Rightarrow> nat option" where
  "decimal acc [] = Some acc"
| "decimal acc (c # cs) =
     (case digit_of c of None \<Rightarrow> None | Some d \<Rightarrow> decimal (10 * acc + d) cs)"

definition array_index :: "string \<Rightarrow> nat option" where
  "array_index k =
     (if k = [] \<or> (hd k = CHR ''0'' \<and> tl k \<noteq> []) then None
      else case decimal 0 k of
             None \<Rightarrow> None
           | Some n \<Rightarrow> if n < 4294967295 then Some n else None)"

text \<open>
  \<open>insert_key k v obj\<close> creates the property \<open>k\<close>, which \<open>obj\<close> does not have yet,
  at its place in the enumeration order.
\<close>

fun insert_key :: "string \<Rightarrow> 'v \<Rightarrow> (string \<times> 'v) list \<Rightarrow> (string \<times> 'v) list" where
  "insert_key k v [] = [(k, v)]"
| "insert_key k v ((k', v') # rest) =
     (case array_index k of
        None \<Rightarrow> (k', v') # insert_key k v rest
      | Some i \<Rightarrow>
          (case array_index k' of
             None \<Rightarrow> (k, v) # (k', v') # rest
           | Some j \<Rightarrow>
               if i < j then (k, v) # (k', v') # rest
               else (k', v') # insert_key k v rest))"

text \<open>\<open>obj[k] = v\<close>: an own property keeps its place, a new one is created.\<close>

definition assign :: "string \<Rightarrow> 'v \<Rightarrow> (string \<times> 'v) list \<Rightarrow> (string \<times> 'v) list" where
  "assign k v obj =
     (if own_key obj k then map (\<lambda>(k', v'). if k' = k then (k', v) else (k', v')) obj
      else insert_key k v obj)"

subsection \<open>The environment\<close>

text \<open>
  The answers of the outside world.  Each answer may depend on the moment of the
  call, counted in \<open>tick\<close>s of the process state (one per awaited call and per
  reading of the clock), and on the request.

  The text of a downloaded file is given by what \<open>JSON.parse\<close> makes of it, and
  the text uploaded is given by the document that \<open>JSON.stringify\<close> serialises.
\<close>

record list_request =
  req_path :: path
  req_page :: nat
  req_per_page :: nat

record env =
  clock :: "nat \<Rightarrow> int"
  fs_get :: "nat \<Rightarrow> path \<Rightarrow> OpenListGetResponse reply"
  download :: "nat \<Rightarrow> string \<Rightarrow> parsed reply"
  fs_list :: "nat \<Rightarrow> list_request \<Rightarrow> OpenListListResponse reply"
  fs_put :: "nat \<Rightarrow> path \<Rightarrow> MetaInfo \<Rightarrow> unit reply"
  tmdb :: "nat \<Rightarrow> string \<Rightarrow> TMDBSearchResult list reply"

subsection \<open>\<open>OpenListClient\<close>\<close>

text \<open>
  \<open>listDirectory(path, page = 1, perPage = 100)\<close>: an omitted argument takes its
  default; \<open>list_body\<close> is the request body sent.  Each method throws when the
  response is not ok.
\<close>

definition list_body :: "path \<Rightarrow> nat option \<Rightarrow> nat option \<Rightarrow> list_request" where
  "list_body p page perPage =
     \<lparr>req_path = p,
      req_page = (case page of None \<Rightarrow> 1 | Some n \<Rightarrow> n),
      req_per_page = (case perPage of None \<Rightarrow> 100 | Some n \<Rightarrow> n)\<rparr>"

definition listDirectory ::
  "env \<Rightarrow> nat \<Rightarrow> path \<Rightarrow> nat option \<Rightarrow> nat option \<Rightarrow> OpenListListResponse js" where
  "listDirectory e t p page perPage =
     (case fs_list e t (list_body p page perPage) of
        HttpOk body \<Rightarrow> Returns body
      | HttpNotOk status \<Rightarrow> Throws
      | Rejected \<Rightarrow> Throws)"

definition getFile :: "env \<Rightarrow> nat \<Rightarrow> path \<Rightarrow> OpenListGetResponse js" where
  "getFile e t p =
     (case fs_get e t p of
        HttpOk body \<Rightarrow> Returns body
      | HttpNotOk status \<Rightarrow> Throws
      | Rejected \<Rightarrow> Throws)"

definition uploadFile :: "env \<Rightarrow> nat \<Rightarrow> path \<Rightarrow> MetaInfo \<Rightarrow> unit js" where
  "uploadFile e t p doc =
     (case fs_put e t p doc of
        HttpOk u \<Rightarrow> Returns ()
      | HttpNotOk status \<Rightarrow> Throws
      | Rejected \<Rightarrow> Throws)"

subsection \<open>\<open>searchTMDB\<close> and \<open>getTMDBImageUrl\<close>\<close>

definition recognised :: "TMDBSearchResult \<Rightarrow> bool" where
  "recognised item = (r_media_type item = ''movie'' \<or> r_media_type item = ''tv'')"

text \<open>
  The whole body of \<open>searchTMDB\<close> is inside a \<open>try\<close>: whatever throws ends as
  code 500.  The proxy only selects the timeout and the agent of the request.
\<close>

definition searchTMDB ::
  "env \<Rightarrow> nat \<Rightarrow> string \<Rightarrow> string \<Rightarrow> int \<times> TMDBSearchResult option" where
  "searchTMDB e t apiKey query =
     (if apiKey = [] then (400, None)
      else case tmdb e t query of
             Rejected \<Rightarrow> (500, None)
           | HttpNotOk status \<Rightarrow> (status, None)
           | HttpOk results \<Rightarrow>
               (let validResults = filter recognised results
                in if length validResults = 0 then (404, None)
                   else (200, Some (hd validResults))))"

definition getTMDBImageUrl :: "string option \<Rightarrow> string" where
  "getTMDBImageUrl p =
     (if \<not> truthy p then [] else ''https://image.tmdb.org/t/p/w500'' @ the p)"

subsection \<open>The process state\<close>

text \<open>
  The calls a handler awaits.  While a call is pending, other requests of the
  same process run and read the cache.  Reading the body of a response belongs
  to the call that fetched it.
\<close>

datatype event =
    GetFile path
  | Fetch string
  | ListDir list_request
  | SearchTMDB string
  | Sleep nat
  | UploadFile path MetaInfo

text \<open>
  \<open>store\<close> holds the documents that exist in memory, by address; \<open>cache\<close> is the
  process-wide cache; \<open>tick\<close> counts the awaited calls and the readings of the
  clock; \<open>trace\<close> lists the awaited calls of the running handler, each with the
  document the cache showed for the handler's root path while the call was
  pending.
\<close>

record state =
  store :: "nat \<Rightarrow> MetaInfo"
  next_ref :: nat
  cache :: "path \<Rightarrow> nat option"
  tick :: nat
  trace :: "(event \<times> MetaInfo option) list"

text \<open>
  Modelled from the spec: \<open>getCachedMetaInfo\<close> of the module \<open>openlist-cache\<close>,
  which is not among the sources.  The cache is a process-wide store keyed by
  root path that holds at most one document per key; \<open>get(key)\<close> gives the
  document or nothing.  A document is a JavaScript object, so what the cache
  holds and hands out is the object itself: the spec names no copying, and it
  describes the in-memory document as one that the pipeline mutates (it adds
  entries and bumps the refresh time).
\<close>

definition getCachedMetaInfo :: "path \<Rightarrow> state \<Rightarrow> nat option" where
  "getCachedMetaInfo rootPath s = cache s rootPath"

text \<open>
  Modelled from the spec: \<open>setCachedMetaInfo\<close> of the module \<open>openlist-cache\<close>,
  which is not among the sources: \<open>set(key, document)\<close> replaces the entry.
\<close>

definition setCachedMetaInfo :: "path \<Rightarrow> nat \<Rightarrow> state \<Rightarrow> state" where
  "setCachedMetaInfo rootPath a s = s\<lparr>cache := (cache s)(rootPath := Some a)\<rparr>"

text \<open>
  Modelled from the spec: \<open>invalidateMetaInfoCache\<close> of the module
  \<open>openlist-cache\<close>, which is not among the sources: \<open>invalidate(key)\<close> removes
  the entry.
\<close>

definition invalidateMetaInfoCache :: "path \<Rightarrow> state \<Rightarrow> state" where
  "invalidateMetaInfoCache rootPath s = s\<lparr>cache := (cache s)(rootPath := None)\<rparr>"

text \<open>What a reader of the cache finds under a root path.\<close>

definition cached_doc :: "path \<Rightarrow> state \<Rightarrow> MetaInfo option" where
  "cached_doc rootPath s = map_option (store s) (getCachedMetaInfo rootPath s)"

text \<open>\<open>await\<close>: the handler is suspended on a call; \<open>Date.now()\<close>; a new object.\<close>

definition await :: "path \<Rightarrow> event \<Rightarrow> state \<Rightarrow> state" where
  "await rootPath ev s =
     s\<lparr>trace := trace s @ [(ev, cached_doc rootPath s)], tick := Suc (tick s)\<rparr>"

definition date_now :: "env \<Rightarrow> state \<Rightarrow> int \<times> state" where
  "date_now e s = (clock e (tick s), s\<lparr>tick := Suc (tick s)\<rparr>)"

definition alloc :: "MetaInfo \<Rightarrow> state \<Rightarrow> nat \<times> state" where
  "alloc doc s =
     (next_ref s,
      s\<lparr>store := (store s)(next_ref s := doc), next_ref := Suc (next_ref s)\<rparr>)"

text \<open>\<open>metaInfo.folders[k] = v\<close> and \<open>metaInfo.last_refresh = t\<close> on the object at \<open>a\<close>.\<close>

definition set_folder :: "nat \<Rightarrow> string \<Rightarrow> FolderRecord \<Rightarrow> state \<Rightarrow> state" where
  "set_folder a k v s =
     s\<lparr>store := (store s)(a := (store s a)\<lparr>folders := assign k v (folders (store s a))\<rparr>)\<rparr>"

definition set_last_refresh :: "nat \<Rightarrow> int \<Rightarrow> state \<Rightarrow> state" where
  "set_last_refresh a t s =
     s\<lparr>store := (store s)(a := (store s a)\<lparr>last_refresh := t\<rparr>)\<rparr>"

subsection \<open>The refresh route: \<open>POST\<close>\<close>

text \<open>
  The model covers the handler from the choice of the root path to the response
  (lines 52 to 258 and 265 to 272).  Before that the handler checks the session
  and the configuration, and after the cache update it writes two counters to
  the admin configuration; both belong to modules outside this development.
\<close>

definition metainfoPath :: "path \<Rightarrow> path" where
  "metainfoPath rootPath =
     rootPath @ (if rootPath \<noteq> [] \<and> last rootPath = CHR ''/'' then [] else ''/'')
       @ ''metainfo.json''"

text \<open>
  \<open>existingMetaInfo\<close> after step 1: still \<open>null\<close>, the cached object, or what
  \<open>JSON.parse\<close> returned.
\<close>

datatype existing = Nothing | Cached nat | Downloaded json_value

text \<open>
  Step 1 (lines 62 to 112).  Everything between the call of \<open>getFile\<close> and the
  assignment of the parsed value is inside a \<open>try\<close> whose handler only logs.
\<close>

definition load_existing :: "env \<Rightarrow> path \<Rightarrow> state \<Rightarrow> existing \<times> state" where
  "load_existing e rootPath s =
     (case getCachedMetaInfo rootPath s of
        Some a \<Rightarrow> (Cached a, s)
      | None \<Rightarrow>
          (let s1 = await rootPath (GetFile (metainfoPath rootPath)) s
           in case getFile e (tick s) (metainfoPath rootPath) of
                Throws \<Rightarrow> (Nothing, s1)
              | Returns fileResponse \<Rightarrow>
                  if get_code fileResponse = 200 \<and> truthy (raw_url fileResponse)
                  then (let downloadUrl = the (raw_url fileResponse);
                            s2 = await rootPath (Fetch downloadUrl) s1
                        in case download e (tick s1) downloadUrl of
                             Rejected \<Rightarrow> (Nothing, s2)
                           | HttpNotOk status \<Rightarrow> (Nothing, s2)
                           | HttpOk SyntaxError \<Rightarrow> (Nothing, s2)
                           | HttpOk (Parsed v) \<Rightarrow> (Downloaded v, s2))
                  else (Nothing, s1)))"

text \<open>
  Lines 114 to 123: \<open>metaInfo = existingMetaInfo || {folders: {}, last_refresh: Date.now()}\<close>,
  then \<open>metaInfo.folders = {}\<close> if \<open>folders\<close> is unusable.  The module is in strict
  mode, where creating a property on a value that is not an object throws a
  \<open>TypeError\<close>.  A cached document has a usable \<open>folders\<close>: both routes check it
  before they cache a document.
\<close>

definition fresh_metaInfo :: "env \<Rightarrow> state \<Rightarrow> nat js \<times> state" where
  "fresh_metaInfo e s =
     (let (now, s1) = date_now e s;
          (a, s2) = alloc \<lparr>folders = [], last_refresh = now\<rparr> s1
      in (Returns a, s2))"

definition init_metaInfo :: "env \<Rightarrow> existing \<Rightarrow> state \<Rightarrow> nat js \<times> state" where
  "init_metaInfo e ex s =
     (case ex of
        Nothing \<Rightarrow> fresh_metaInfo e s
      | Cached a \<Rightarrow> (Returns a, s)
      | Downloaded Falsy \<Rightarrow> fresh_metaInfo e s
      | Downloaded Primitive \<Rightarrow> (Throws, s)
      | Downloaded (Object NoFolders t) \<Rightarrow>
          (let (a, s1) = alloc \<lparr>folders = [], last_refresh = t\<rparr> s in (Returns a, s1))
      | Downloaded (Object (Folders fs) t) \<Rightarrow>
          (let (a, s1) = alloc \<lparr>folders = fs, last_refresh = t\<rparr> s in (Returns a, s1)))"

text \<open>Lines 179 to 188: the record built from a search result.\<close>

definition folder_record :: "TMDBSearchResult \<Rightarrow> string \<Rightarrow> int \<Rightarrow> FolderRecord" where
  "folder_record result folder_name now =
     \<lparr>tmdb_id = r_id result,
      title = or_else (r_title result) (or_else (r_name result) folder_name),
      poster_path = r_poster_path result,
      release_date = or_else (r_release_date result) (or_else (r_first_air_date result) []),
      overview = r_overview result,
      vote_average = r_vote_average result,
      media_type = r_media_type result,
      last_updated = now\<rparr>"

text \<open>
  One turn of the loop of step 3 (lines 152 to 207) on the counters and the
  state.  \<open>searchTMDB\<close> does not throw, so the \<open>catch\<close> of the loop body is never
  entered.
\<close>

definition visit_folder ::
  "env \<Rightarrow> string \<Rightarrow> path \<Rightarrow> nat \<Rightarrow> OpenListFile \<Rightarrow> nat \<times> nat \<times> state \<Rightarrow> nat \<times> nat \<times> state" where
  "visit_folder e tmdbApiKey rootPath a folder acc =
     (case acc of (newCount, errorCount, s) \<Rightarrow>
        if has_entry (folders (store s a)) (name folder) then (newCount, errorCount, s)
        else
          (let searchResult = searchTMDB e (tick s) tmdbApiKey (name folder);
               s1 = await rootPath (SearchTMDB (name folder)) s
           in case searchResult of
                (code, Some result) \<Rightarrow>
                  if code = 200
                  then (let (now, s2) = date_now e s1;
                            s3 = set_folder a (name folder)
                                   (folder_record result (name folder) now) s2
                        in (newCount + 1, errorCount, await rootPath (Sleep 300) s3))
                  else (newCount, errorCount + 1, await rootPath (Sleep 300) s1)
              | (code, None) \<Rightarrow> (newCount, errorCount + 1, await rootPath (Sleep 300) s1)))"

fun visit_folders ::
  "env \<Rightarrow> string \<Rightarrow> path \<Rightarrow> nat \<Rightarrow> OpenListFile list \<Rightarrow> nat \<times> nat \<times> state \<Rightarrow> nat \<times> nat \<times> state" where
  "visit_folders e tmdbApiKey rootPath a [] acc = acc"
| "visit_folders e tmdbApiKey rootPath a (folder # rest) acc =
     visit_folders e tmdbApiKey rootPath a rest
       (visit_folder e tmdbApiKey rootPath a folder acc)"

text \<open>
  Lines 224 to 253: the read-back after the upload.  It is inside a \<open>try\<close> whose
  handler only logs, and what it reads is only logged.
\<close>

definition verify_upload :: "env \<Rightarrow> path \<Rightarrow> state \<Rightarrow> state" where
  "verify_upload e rootPath s =
     (let s1 = await rootPath (GetFile (metainfoPath rootPath)) s
      in case getFile e (tick s) (metainfoPath rootPath) of
           Throws \<Rightarrow> s1
         | Returns verifyResponse \<Rightarrow>
             if get_code verifyResponse = 200 \<and> truthy (raw_url verifyResponse)
             then await rootPath (Fetch (the (raw_url verifyResponse))) s1
             else s1)"

text \<open>
  The response: status 500 from the outer \<open>catch\<close>, status 500 for a listing whose
  code is not 200, or the summary.
\<close>

record summary =
  sum_total :: nat
  sum_new :: nat
  sum_existing :: int
  sum_errors :: nat
  sum_last_refresh :: int

datatype refresh_response = RefreshFailed | ListFailed | Refreshed summary

text \<open>Steps 4 and 5 (lines 209 to 258) and the response.\<close>

definition persist ::
  "env \<Rightarrow> path \<Rightarrow> nat \<Rightarrow> nat \<Rightarrow> nat \<times> nat \<times> state \<Rightarrow> refresh_response \<times> state" where
  "persist e rootPath a n_folders acc =
     (case acc of (newCount, errorCount, s) \<Rightarrow>
        (let (now, s1) = date_now e s;
             s2 = set_last_refresh a now s1;
             metainfoContent = store s2 a;
             s3 = await rootPath (UploadFile (metainfoPath rootPath) metainfoContent) s2
         in case uploadFile e (tick s2) (metainfoPath rootPath) metainfoContent of
              Throws \<Rightarrow> (RefreshFailed, s3)
            | Returns u \<Rightarrow>
                (let s4 = verify_upload e rootPath s3;
                     s5 = setCachedMetaInfo rootPath a (invalidateMetaInfoCache rootPath s4)
                 in (Refreshed
                       \<lparr>sum_total = n_folders,
                        sum_new = newCount,
                        sum_existing = int (length (folders (store s5 a))) - int newCount,
                        sum_errors = errorCount,
                        sum_last_refresh = last_refresh (store s5 a)\<rparr>,
                     s5))))"

text \<open>Lines 62 to 123 together: the object the run works on, or the \<open>TypeError\<close>.\<close>

definition load_metaInfo :: "env \<Rightarrow> path \<Rightarrow> state \<Rightarrow> nat js \<times> state" where
  "load_metaInfo e rootPath s =
     (let (ex, s1) = load_existing e rootPath s in init_metaInfo e ex s1)"

definition POST :: "env \<Rightarrow> string \<Rightarrow> path \<Rightarrow> state \<Rightarrow> refresh_response \<times> state" where
  "POST e tmdbApiKey rootPath s =
     (case load_metaInfo e rootPath s of
        (Throws, s2) \<Rightarrow> (RefreshFailed, s2)
      | (Returns a, s2) \<Rightarrow>
          (let s3 = await rootPath (ListDir (list_body rootPath None None)) s2
           in case listDirectory e (tick s2) rootPath None None of
                Throws \<Rightarrow> (RefreshFailed, s3)
              | Returns listResponse \<Rightarrow>
                  if list_code listResponse \<noteq> 200 then (ListFailed, s3)
                  else (let dirs = filter is_dir (content listResponse)
                        in persist e rootPath a (length dirs)
                             (visit_folders e tmdbApiKey rootPath a dirs (0, 0, s3)))))"

subsection \<open>The list route: \<open>GET\<close>\<close>

record video =
  v_id :: string
  v_folder :: string
  v_title :: string
  v_poster :: string
  releaseDate :: string
  v_overview :: string
  voteAverage :: real
  mediaType :: string
  lastUpdated :: int

record listing =
  lp_list :: "video list"
  lp_total :: nat
  lp_page :: int
  lp_pageSize :: int
  lp_totalPages :: "int option"

text \<open>
  The response: one of the answers with an \<open>error\<close> text, an empty list and total
  0, or a page.
\<close>

datatype list_response = Unavailable | Listing listing

definition to_video :: "string \<times> FolderRecord \<Rightarrow> video" where
  "to_video entry =
     (case entry of (folderName, info) \<Rightarrow>
        \<lparr>v_id = folderName,
         v_folder = folderName,
         v_title = title info,
         v_poster = getTMDBImageUrl (poster_path info),
         releaseDate = release_date info,
         v_overview = overview info,
         voteAverage = vote_average info,
         mediaType = media_type info,
         lastUpdated = last_updated info\<rparr>)"

text \<open>
  \<open>Math.ceil(total / pageSize)\<close>: the division by zero gives \<open>Infinity\<close> or \<open>NaN\<close>,
  which the JSON response writes as \<open>null\<close>.
\<close>

definition ceil_div :: "int \<Rightarrow> int \<Rightarrow> int option" where
  "ceil_div n pageSize =
     (if pageSize = 0 then None else Some (- ((- n) div pageSize)))"

text \<open>
  Lines 156 to 185.  \<open>sort\<close> with the comparator \<open>b.lastUpdated - a.lastUpdated\<close> is
  a stable sort by descending \<open>lastUpdated\<close>.  \<open>page\<close> and \<open>pageSize\<close> are the
  integers that \<open>parseInt\<close> returned.
\<close>

definition paginate :: "MetaInfo \<Rightarrow> int \<Rightarrow> int \<Rightarrow> listing" where
  "paginate metaInfo page pageSize =
     (let allVideos = sort_key (\<lambda>v. - lastUpdated v) (map to_video (folders metaInfo));
          n_total = length allVideos;
          start = (page - 1) * pageSize;
          fin = start + pageSize
      in \<lparr>lp_list = slice allVideos start fin,
          lp_total = n_total,
          lp_page = page,
          lp_pageSize = pageSize,
          lp_totalPages = ceil_div (int n_total) pageSize\<rparr>)"

text \<open>
  Lines 46 to 151: the cached document, or the one read from the remote file,
  which is checked and cached.  Every failure of the read ends in an answer with
  an empty list.
\<close>

definition GET :: "env \<Rightarrow> path \<Rightarrow> int \<Rightarrow> int \<Rightarrow> state \<Rightarrow> list_response \<times> state" where
  "GET e rootPath page pageSize s =
     (case getCachedMetaInfo rootPath s of
        Some a \<Rightarrow> (Listing (paginate (store s a) page pageSize), s)
      | None \<Rightarrow>
          (let s1 = await rootPath (GetFile (metainfoPath rootPath)) s
           in case getFile e (tick s) (metainfoPath rootPath) of
                Throws \<Rightarrow> (Unavailable, s1)
              | Returns fileResponse \<Rightarrow>
                  if get_code fileResponse = 200 \<and> truthy (raw_url fileResponse)
                  then (let downloadUrl = the (raw_url fileResponse);
                            s2 = await rootPath (Fetch downloadUrl) s1
                        in case download e (tick s1) downloadUrl of
                             Rejected \<Rightarrow> (Unavailable, s2)
                           | HttpNotOk status \<Rightarrow> (Unavailable, s2)
                           | HttpOk SyntaxError \<Rightarrow> (Unavailable, s2)
                           | HttpOk (Parsed Falsy) \<Rightarrow> (Unavailable, s2)
                           | HttpOk (Parsed Primitive) \<Rightarrow> (Unavailable, s2)
                           | HttpOk (Parsed (Object NoFolders t)) \<Rightarrow> (Unavailable, s2)
                           | HttpOk (Parsed (Object (Folders fs) t)) \<Rightarrow>
                               (let (a, s3) = alloc \<lparr>folders = fs, last_refresh = t\<rparr> s2;
                                    s4 = setCachedMetaInfo rootPath a s3
                                in (Listing (paginate (store s4 a) page pageSize), s4)))
                  else (Unavailable, s1)))"

subsection \<open>What a run did\<close>

text \<open>
  The calls a handler awaited between two states, and of those the search
  queries, the listing requests and the documents handed to \<open>uploadFile\<close>.
\<close>

definition issued :: "state \<Rightarrow> state \<Rightarrow> event list" where
  "issued s s' = map fst (drop (length (trace s)) (trace s'))"

fun searched :: "event list \<Rightarrow> string list" where
  "searched [] = []"
| "searched (SearchTMDB q # evs) = q # searched evs"
| "searched (ev # evs) = searched evs"

fun listed :: "event list \<Rightarrow> list_request list" where
  "listed [] = []"
| "listed (ListDir req # evs) = req # listed evs"
| "listed (ev # evs) = listed evs"

fun uploads :: "event list \<Rightarrow> MetaInfo list" where
  "uploads [] = []"
| "uploads (UploadFile p doc # evs) = doc # uploads evs"
| "uploads (ev # evs) = uploads evs"

text \<open>What the cache showed for the root path of the run at each of its calls.\<close>

definition snapshots :: "state \<Rightarrow> state \<Rightarrow> MetaInfo option list" where
  "snapshots s s' = map snd (drop (length (trace s)) (trace s'))"

text \<open>
  The folder names of a document, and the names that readers of the cache could
  see during a run, call by call.
\<close>

definition folder_names :: "MetaInfo \<Rightarrow> string list" where
  "folder_names doc = map fst (folders doc)"

definition keys_seen :: "state \<Rightarrow> string list option list" where
  "keys_seen s = map (\<lambda>(ev, d). map_option folder_names d) (trace s)"

text \<open>The records of a list response (none in an answer without a page).\<close>

fun records :: "list_response \<Rightarrow> video list" where
  "records Unavailable = []"
| "records (Listing l) = lp_list l"

subsection \<open>A remote service and sample data\<close>

text \<open>
  A directory service that pages its listing the way the request asks: page
  \<open>req_page\<close> of pages of \<open>req_per_page\<close> entries.
\<close>

definition serve_page :: "OpenListFile list \<Rightarrow> list_request \<Rightarrow> OpenListListResponse" where
  "serve_page entries req =
     \<lparr>list_code = 200,
      content = take (req_per_page req) (drop ((req_page req - 1) * req_per_page req) entries)\<rparr>"

definition sample_result :: "string \<Rightarrow> TMDBSearchResult" where
  "sample_result kind =
     \<lparr>r_id = 603, r_title = Some ''The Matrix'', r_name = None,
      r_poster_path = Some ''/m.jpg'', r_release_date = Some ''1999-03-31'',
      r_first_air_date = None, r_overview = ''A hacker learns the truth.'',
      r_vote_average = 8, r_media_type = kind\<rparr>"

definition sample_record :: "int \<Rightarrow> FolderRecord" where
  "sample_record t = folder_record (sample_result ''movie'') ''The Matrix (1999)'' t"

definition dir :: "string \<Rightarrow> OpenListFile" where
  "dir n = \<lparr>name = n, size_bytes = 0, is_dir = True, modified = []\<rparr>"

definition plain_file :: "string \<Rightarrow> OpenListFile" where
  "plain_file n = \<lparr>name = n, size_bytes = 1, is_dir = False, modified = []\<rparr>"

text \<open>
  A provider that finds a film (after a person) for every query, and one that
  finds nothing for the query \<open>b\<close>.
\<close>

definition always_movie :: "string \<Rightarrow> TMDBSearchResult list reply" where
  "always_movie q = HttpOk [sample_result ''person'', sample_result ''movie'']"

definition all_but_b :: "string \<Rightarrow> TMDBSearchResult list reply" where
  "all_but_b q = (if q = ''b'' then HttpOk [sample_result ''person''] else always_movie q)"

text \<open>
  An environment whose clock shows \<open>1000 + tick\<close>, whose remote has no
  \<open>metainfo.json\<close>, lists \<open>entries\<close>, and accepts an upload or not.
\<close>

definition sample_env ::
  "(string \<Rightarrow> TMDBSearchResult list reply) \<Rightarrow> OpenListFile list \<Rightarrow> bool \<Rightarrow> env" where
  "sample_env provider entries upload_ok =
     \<lparr>clock = (\<lambda>t. 1000 + int t),
      fs_get = (\<lambda>t p. Rejected),
      download = (\<lambda>t u. Rejected),
      fs_list = (\<lambda>t req. HttpOk (serve_page entries req)),
      fs_put = (\<lambda>t p doc. if upload_ok then HttpOk () else HttpNotOk 500),
      tmdb = (\<lambda>t q. provider q)\<rparr>"

text \<open>The same, with a remote \<open>metainfo.json\<close> whose text parses to \<open>v\<close>.\<close>

definition remote_file_env :: "json_value \<Rightarrow> OpenListFile list \<Rightarrow> env" where
  "remote_file_env v entries =
     (sample_env always_movie entries True)
       \<lparr>fs_get := (\<lambda>t p. HttpOk \<lparr>get_code = 200, raw_url = Some ''https://files/raw''\<rparr>),
        download := (\<lambda>t u. HttpOk (Parsed v))\<rparr>"

text \<open>
  A process whose cache is empty, and one whose cache holds \<open>doc\<close> for the root
  path \<open>/\<close>.
\<close>

definition cold_state :: state where
  "cold_state =
     \<lparr>store = (\<lambda>a. \<lparr>folders = [], last_refresh = 0\<rparr>), next_ref = 0,
      cache = (\<lambda>p. None), tick = 0, trace = []\<rparr>"

definition warm_state :: "MetaInfo \<Rightarrow> state" where
  "warm_state doc =
     \<lparr>store = (\<lambda>a. doc), next_ref = 1,
      cache = (\<lambda>p. if p = ''/'' then Some 0 else None), tick = 0, trace = []\<rparr>"

text \<open>A document with 25 folders, named \<open>f\<close>, \<open>fx\<close>, \<open>fxx\<close> and so on.\<close>

definition library25 :: MetaInfo where
  "library25 =
     \<lparr>folders = map (\<lambda>i. (CHR ''f'' # replicate i (CHR ''x''), sample_record (int i))) [0..<25],
      last_refresh = 24\<rparr>"

text \<open>
  A document that knows the folders \<open>a\<close> and \<open>b\<close>, and a listing whose 101st
  entry is a directory.
\<close>

definition two_known :: MetaInfo where
  "two_known =
     \<lparr>folders = [(''a'', sample_record 1), (''b'', sample_record 2)], last_refresh = 5\<rparr>"

definition long_listing :: "OpenListFile list" where
  "long_listing = dir ''early'' # replicate 99 (plain_file ''x'') @ [dir ''late'']"

section \<open>Properties\<close>

text \<open>The definitions that the evaluation of a concrete run unfolds.\<close>

lemmas run_defs =
  POST_def load_metaInfo_def load_existing_def init_metaInfo_def fresh_metaInfo_def
  persist_def verify_upload_def visit_folder_def searchTMDB_def recognised_def
  listDirectory_def getFile_def uploadFile_def list_body_def
  getCachedMetaInfo_def setCachedMetaInfo_def invalidateMetaInfoCache_def cached_doc_def
  await_def date_now_def alloc_def set_folder_def set_last_refresh_def
  assign_def own_key_def has_entry_def inherited_names_def array_index_def digit_of_def
  metainfoPath_def folder_record_def or_else_def truthy_def
  sample_env_def remote_file_env_def serve_page_def always_movie_def all_but_b_def
  sample_result_def sample_record_def dir_def plain_file_def cold_state_def warm_state_def
  two_known_def long_listing_def keys_seen_def folder_names_def issued_def snapshots_def Let_def


subsection \<open>Objects, the state and one turn of the loop\<close>

lemma set_insert_key: "set (insert_key k v obj) = insert (k, v) (set obj)"
  by (induction obj) (auto split: option.splits if_splits)

lemma map_of_insert_key_other:
  "k' \<noteq> k \<Longrightarrow> map_of (insert_key k v obj) k' = map_of obj k'"
  by (induction obj) (auto split: option.splits if_splits)

lemma map_of_insert_key_same:
  "\<not> own_key obj k \<Longrightarrow> map_of (insert_key k v obj) k = Some v"
  by (induction obj) (auto simp: own_key_def split: option.splits if_splits)

lemma length_insert_key: "length (insert_key k v obj) = Suc (length obj)"
  by (induction obj) (auto split: option.splits if_splits)

lemma assign_new: "\<not> has_entry obj k \<Longrightarrow> assign k v obj = insert_key k v obj"
  by (simp add: assign_def has_entry_def)

lemma await_fields:
  "store (await r ev s) = store s"
  "cache (await r ev s) = cache s"
  "next_ref (await r ev s) = next_ref s"
  "tick (await r ev s) = Suc (tick s)"
  "trace (await r ev s) = trace s @ [(ev, cached_doc r s)]"
  by (simp_all add: await_def)

lemma set_folder_fields:
  "store (set_folder a k v s) =
     (store s)(a := (store s a)\<lparr>folders := assign k v (folders (store s a))\<rparr>)"
  "cache (set_folder a k v s) = cache s"
  "next_ref (set_folder a k v s) = next_ref s"
  "tick (set_folder a k v s) = tick s"
  "trace (set_folder a k v s) = trace s"
  by (simp_all add: set_folder_def)

lemma date_now_fields:
  "fst (date_now e s) = clock e (tick s)"
  "store (snd (date_now e s)) = store s"
  "cache (snd (date_now e s)) = cache s"
  "next_ref (snd (date_now e s)) = next_ref s"
  "tick (snd (date_now e s)) = Suc (tick s)"
  "trace (snd (date_now e s)) = trace s"
  by (simp_all add: date_now_def)

text \<open>One turn of the loop: the three ways it can go.\<close>

lemma visit_folder_skip:
  "has_entry (folders (store s a)) (name f) \<Longrightarrow>
   visit_folder e k r a f (n, m, s) = (n, m, s)"
  by (simp add: visit_folder_def)

lemma visit_folder_hit:
  assumes "\<not> has_entry (folders (store s a)) (name f)"
    and "searchTMDB e (tick s) k (name f) = (200, Some res)"
  shows "visit_folder e k r a f (n, m, s) =
     (n + 1, m,
      await r (Sleep 300)
        (set_folder a (name f) (folder_record res (name f) (clock e (Suc (tick s))))
           (snd (date_now e (await r (SearchTMDB (name f)) s)))))"
  using assms by (simp add: visit_folder_def Let_def date_now_def await_fields split: prod.splits)

lemma visit_folder_miss:
  assumes "\<not> has_entry (folders (store s a)) (name f)"
    and "\<not> (\<exists>res. searchTMDB e (tick s) k (name f) = (200, Some res))"
  shows "visit_folder e k r a f (n, m, s) =
     (n, m + 1, await r (Sleep 300) (await r (SearchTMDB (name f)) s))"
  using assms by (auto simp add: visit_folder_def Let_def split: prod.splits option.splits)

subsection \<open>What the loop does to the document and to the trace\<close>

lemma searched_append: "searched (xs @ ys) = searched xs @ searched ys"
  by (induction xs rule: searched.induct) simp_all

lemma listed_append: "listed (xs @ ys) = listed xs @ listed ys"
  by (induction xs rule: listed.induct) simp_all

lemma uploads_append: "uploads (xs @ ys) = uploads xs @ uploads ys"
  by (induction xs rule: uploads.induct) simp_all

text \<open>The three ways, as a case distinction.\<close>

lemma visit_folder_cases:
  obtains
    (skip) "has_entry (folders (store s a)) (name f)"
      "visit_folder e k r a f (n, m, s) = (n, m, s)"
  | (hit) res where "\<not> has_entry (folders (store s a)) (name f)"
      "searchTMDB e (tick s) k (name f) = (200, Some res)"
      "visit_folder e k r a f (n, m, s) =
         (n + 1, m,
          await r (Sleep 300)
            (set_folder a (name f) (folder_record res (name f) (clock e (Suc (tick s))))
               (snd (date_now e (await r (SearchTMDB (name f)) s)))))"
  | (miss) "\<not> has_entry (folders (store s a)) (name f)"
      "\<not> (\<exists>res. searchTMDB e (tick s) k (name f) = (200, Some res))"
      "visit_folder e k r a f (n, m, s) =
         (n, m + 1, await r (Sleep 300) (await r (SearchTMDB (name f)) s))"
proof (cases "has_entry (folders (store s a)) (name f)")
  case True
  then show ?thesis using skip visit_folder_skip by blast
next
  case False
  show ?thesis
  proof (cases "\<exists>res. searchTMDB e (tick s) k (name f) = (200, Some res)")
    case True
    then obtain res where "searchTMDB e (tick s) k (name f) = (200, Some res)" by blast
    with False show ?thesis using hit visit_folder_hit by blast
  next
    case no: False
    with False show ?thesis using miss visit_folder_miss by blast
  qed
qed

lemma visit_folder_frame:
  assumes "visit_folder e k r a f (n, m, s) = (n', m', s')"
  shows "cache s' = cache s" and "next_ref s' = next_ref s"
    and "b \<noteq> a \<Longrightarrow> store s' b = store s b"
    and "last_refresh (store s' a) = last_refresh (store s a)"
  using assms
  by (cases rule: visit_folder_cases [of s a f e k r n m];
      auto simp: await_fields set_folder_fields date_now_fields)+

lemma visit_folder_keeps:
  assumes "visit_folder e k r a f (n, m, s) = (n', m', s')"
    and "map_of (folders (store s a)) key = Some v"
  shows "map_of (folders (store s' a)) key = Some v"
proof (cases rule: visit_folder_cases [of s a f e k r n m])
  case skip
  with assms show ?thesis by simp
next
  case (hit res)
  from assms(2) have "key \<in> fst ` set (folders (store s a))"
    by (metis map_of_eq_None_iff option.distinct(1))
  with hit(1) have "key \<noteq> name f" unfolding has_entry_def own_key_def by blast
  with hit assms show ?thesis
    by (auto simp: await_fields set_folder_fields date_now_fields assign_new
        map_of_insert_key_other)
next
  case miss
  with assms show ?thesis by (auto simp: await_fields)
qed

lemma visit_folder_keys:
  assumes "visit_folder e k r a f (n, m, s) = (n', m', s')"
  shows "fst ` set (folders (store s' a)) =
         fst ` set (folders (store s a))
           \<union> (if \<not> has_entry (folders (store s a)) (name f)
                 \<and> (\<exists>res. searchTMDB e (tick s) k (name f) = (200, Some res))
               then {name f} else {})"
  using assms
  by (cases rule: visit_folder_cases [of s a f e k r n m];
      auto simp: await_fields set_folder_fields date_now_fields assign_new set_insert_key)

lemma visit_folder_trace:
  assumes "visit_folder e k r a f (n, m, s) = (n', m', s')"
  shows "\<exists>evs. trace s' = trace s @ evs
           \<and> listed (map fst evs) = [] \<and> uploads (map fst evs) = []
           \<and> searched (map fst evs)
               = (if has_entry (folders (store s a)) (name f) then [] else [name f])"
  using assms
  by (cases rule: visit_folder_cases [of s a f e k r n m];
      auto simp: await_fields set_folder_fields date_now_fields)

text \<open>A turn only moves forward; the turn that finds a match.\<close>

lemma visit_folder_grows:
  assumes "visit_folder e k r a f (n, m, s) = (n', m', s')"
  shows "tick s \<le> tick s'" and "n \<le> n'"
    and "n' + length (folders (store s a)) = n + length (folders (store s' a))"
  using assms
  by (cases rule: visit_folder_cases [of s a f e k r n m];
      auto simp: await_fields set_folder_fields date_now_fields assign_new length_insert_key)+

lemma visit_folder_stores:
  assumes unseen: "\<not> has_entry (folders (store s a)) (name f)"
    and found: "searchTMDB e (tick s) k (name f) = (200, Some res)"
    and turn: "visit_folder e k r a f (n, m, s) = (n', m', s')"
  shows "map_of (folders (store s' a)) (name f)
           = Some (folder_record res (name f) (clock e (Suc (tick s))))"
    and "n' = n + 1" and "tick s' = tick s + 3"
proof -
  have own: "\<not> own_key (folders (store s a)) (name f)"
    using unseen by (simp add: has_entry_def)
  from visit_folder_hit [OF unseen found, of r n m] turn
  have n': "n' = n + 1"
    and s': "s' = await r (Sleep 300)
        (set_folder a (name f) (folder_record res (name f) (clock e (Suc (tick s))))
           (snd (date_now e (await r (SearchTMDB (name f)) s))))"
    by simp_all
  have "folders (store s' a)
           = assign (name f) (folder_record res (name f) (clock e (Suc (tick s))))
               (folders (store s a))"
    by (simp add: s' await_fields set_folder_fields date_now_fields)
  with unseen own show "map_of (folders (store s' a)) (name f)
           = Some (folder_record res (name f) (clock e (Suc (tick s))))"
    by (simp add: assign_new map_of_insert_key_same)
  show "n' = n + 1" by (rule n')
  show "tick s' = tick s + 3"
    by (simp add: s' await_fields set_folder_fields date_now_fields)
qed

text \<open>The loop.\<close>

lemma visit_folders_frame:
  "visit_folders e k r a dirs (n, m, s) = (n', m', s') \<Longrightarrow>
     cache s' = cache s \<and> next_ref s' = next_ref s
   \<and> (\<forall>b. b \<noteq> a \<longrightarrow> store s' b = store s b)
   \<and> last_refresh (store s' a) = last_refresh (store s a)"
proof (induction dirs arbitrary: n m s)
  case Nil
  then show ?case by simp
next
  case (Cons f rest)
  obtain n1 m1 s1 where turn: "visit_folder e k r a f (n, m, s) = (n1, m1, s1)"
    by (metis prod_cases3)
  with Cons.prems have "visit_folders e k r a rest (n1, m1, s1) = (n', m', s')" by simp
  from Cons.IH [OF this] visit_folder_frame [OF turn] show ?case by simp
qed

lemma visit_folders_keeps:
  "visit_folders e k r a dirs (n, m, s) = (n', m', s') \<Longrightarrow>
   map_of (folders (store s a)) key = Some v \<Longrightarrow>
   map_of (folders (store s' a)) key = Some v"
proof (induction dirs arbitrary: n m s)
  case Nil
  then show ?case by simp
next
  case (Cons f rest)
  obtain n1 m1 s1 where turn: "visit_folder e k r a f (n, m, s) = (n1, m1, s1)"
    by (metis prod_cases3)
  with Cons.prems have rest: "visit_folders e k r a rest (n1, m1, s1) = (n', m', s')" by simp
  from visit_folder_keeps [OF turn Cons.prems(2)]
  have "map_of (folders (store s1 a)) key = Some v" .
  from Cons.IH [OF rest this] show ?case .
qed

lemma visit_folder_has_entry_mono:
  assumes "visit_folder e k r a f (n, m, s) = (n', m', s')"
    and "has_entry (folders (store s a)) q"
  shows "has_entry (folders (store s' a)) q"
  using assms(2) visit_folder_keys [OF assms(1)]
  unfolding has_entry_def own_key_def by blast

lemma visit_folders_nothing_new:
  "\<forall>f \<in> set dirs. has_entry (folders (store s a)) (name f) \<Longrightarrow>
   visit_folders e k r a dirs (n, m, s) = (n, m, s)"
  by (induction dirs) (simp_all add: visit_folder_skip)

lemma visit_folders_trace:
  "visit_folders e k r a dirs (n, m, s) = (n', m', s') \<Longrightarrow>
   \<exists>evs. trace s' = trace s @ evs
        \<and> listed (map fst evs) = [] \<and> uploads (map fst evs) = []
        \<and> set (searched (map fst evs))
            \<subseteq> {name f |f. f \<in> set dirs \<and> \<not> has_entry (folders (store s a)) (name f)}"
proof (induction dirs arbitrary: n m s)
  case Nil
  then show ?case by simp
next
  case (Cons f rest)
  obtain n1 m1 s1 where turn: "visit_folder e k r a f (n, m, s) = (n1, m1, s1)"
    by (metis prod_cases3)
  with Cons.prems have rest: "visit_folders e k r a rest (n1, m1, s1) = (n', m', s')" by simp
  from visit_folder_trace [OF turn] obtain evs1 where
    e1: "trace s1 = trace s @ evs1" "listed (map fst evs1) = []" "uploads (map fst evs1) = []"
      "searched (map fst evs1)
         = (if has_entry (folders (store s a)) (name f) then [] else [name f])" by blast
  from Cons.IH [OF rest] obtain evs2 where
    e2: "trace s' = trace s1 @ evs2" "listed (map fst evs2) = []" "uploads (map fst evs2) = []"
      "set (searched (map fst evs2))
         \<subseteq> {name g |g. g \<in> set rest \<and> \<not> has_entry (folders (store s1 a)) (name g)}" by blast
  have mono: "\<And>q. \<not> has_entry (folders (store s1 a)) q \<Longrightarrow> \<not> has_entry (folders (store s a)) q"
    using visit_folder_has_entry_mono [OF turn] by blast
  have "trace s' = trace s @ (evs1 @ evs2)" using e1(1) e2(1) by simp
  moreover have "listed (map fst (evs1 @ evs2)) = []" using e1(2) e2(2) by (simp add: listed_append)
  moreover have "uploads (map fst (evs1 @ evs2)) = []" using e1(3) e2(3) by (simp add: uploads_append)
  moreover have "set (searched (map fst (evs1 @ evs2)))
      \<subseteq> {name g |g. g \<in> set (f # rest) \<and> \<not> has_entry (folders (store s a)) (name g)}"
  proof
    fix q assume "q \<in> set (searched (map fst (evs1 @ evs2)))"
    then consider "q \<in> set (searched (map fst evs1))" | "q \<in> set (searched (map fst evs2))"
      by (auto simp: searched_append)
    then show "q \<in> {name g |g. g \<in> set (f # rest) \<and> \<not> has_entry (folders (store s a)) (name g)}"
    proof cases
      case 1
      with e1(4) show ?thesis by (auto split: if_splits)
    next
      case 2
      with e2(4) obtain g where "q = name g" "g \<in> set rest"
        "\<not> has_entry (folders (store s1 a)) (name g)" by blast
      with mono show ?thesis by auto
    qed
  qed
  ultimately show ?case by blast
qed

lemma visit_folders_keys_subset:
  "visit_folders e k r a dirs (n, m, s) = (n', m', s') \<Longrightarrow>
   fst ` set (folders (store s' a))
     \<subseteq> fst ` set (folders (store s a))
        \<union> {name f |f. f \<in> set dirs \<and> \<not> has_entry (folders (store s a)) (name f)}"
proof (induction dirs arbitrary: n m s)
  case Nil
  then show ?case by simp
next
  case (Cons f rest)
  obtain n1 m1 s1 where turn: "visit_folder e k r a f (n, m, s) = (n1, m1, s1)"
    by (metis prod_cases3)
  with Cons.prems have rest: "visit_folders e k r a rest (n1, m1, s1) = (n', m', s')" by simp
  have mono: "\<And>q. \<not> has_entry (folders (store s1 a)) q \<Longrightarrow> \<not> has_entry (folders (store s a)) q"
    using visit_folder_has_entry_mono [OF turn] by blast
  show ?case
  proof
    fix q assume "q \<in> fst ` set (folders (store s' a))"
    with Cons.IH [OF rest] consider "q \<in> fst ` set (folders (store s1 a))"
      | g where "q = name g" "g \<in> set rest" "\<not> has_entry (folders (store s1 a)) (name g)"
      by blast
    then show "q \<in> fst ` set (folders (store s a))
        \<union> {name g |g. g \<in> set (f # rest) \<and> \<not> has_entry (folders (store s a)) (name g)}"
    proof cases
      case 1
      with visit_folder_keys [OF turn] show ?thesis by (auto split: if_splits)
    next
      case 2
      with mono show ?thesis by auto
    qed
  qed
qed

lemma visit_folders_count:
  assumes "distinct (map name dirs)"
    and "\<forall>f \<in> set dirs. \<not> has_entry (folders (store s a)) (name f)"
    and "\<forall>f \<in> set dirs. found (name f) \<longrightarrow> (\<forall>t. \<exists>res. searchTMDB e t k (name f) = (200, Some res))"
    and "\<forall>f \<in> set dirs. \<not> found (name f) \<longrightarrow> (\<forall>t res. searchTMDB e t k (name f) \<noteq> (200, Some res))"
    and "visit_folders e k r a dirs (n, m, s) = (n', m', s')"
  shows "n' = n + length (filter (\<lambda>f. found (name f)) dirs)
       \<and> m' = m + length (filter (\<lambda>f. \<not> found (name f)) dirs)
       \<and> fst ` set (folders (store s' a))
           = fst ` set (folders (store s a)) \<union> {name f |f. f \<in> set dirs \<and> found (name f)}"
  using assms
proof (induction dirs arbitrary: n m s)
  case Nil
  then show ?case by simp
next
  case (Cons f rest)
  obtain n1 m1 s1 where turn: "visit_folder e k r a f (n, m, s) = (n1, m1, s1)"
    by (metis prod_cases3)
  with Cons.prems have rest: "visit_folders e k r a rest (n1, m1, s1) = (n', m', s')" by simp
  from Cons.prems(2) have unseen: "\<not> has_entry (folders (store s a)) (name f)" by simp
  have yes: "found (name f) \<Longrightarrow> \<exists>res. searchTMDB e (tick s) k (name f) = (200, Some res)"
    using Cons.prems(3) by simp
  have no: "\<not> found (name f) \<Longrightarrow> \<not> (\<exists>res. searchTMDB e (tick s) k (name f) = (200, Some res))"
    using Cons.prems(4) by simp
  have keys1: "fst ` set (folders (store s1 a))
      = fst ` set (folders (store s a)) \<union> (if found (name f) then {name f} else {})"
    using visit_folder_keys [OF turn] unseen yes no by (cases "found (name f)") simp_all
  have counts: "n1 = n + (if found (name f) then 1 else 0)
              \<and> m1 = m + (if found (name f) then 0 else 1)"
  proof (cases "found (name f)")
    case True
    with yes obtain res where "searchTMDB e (tick s) k (name f) = (200, Some res)" by blast
    from visit_folder_hit [OF unseen this] turn True show ?thesis by simp
  next
    case False
    from visit_folder_miss [OF unseen no [OF False]] turn False show ?thesis by simp
  qed
  then have n1: "n1 = n + (if found (name f) then 1 else 0)"
    and m1: "m1 = m + (if found (name f) then 0 else 1)" by simp_all
  have still: "\<forall>g \<in> set rest. \<not> has_entry (folders (store s1 a)) (name g)"
  proof
    fix g assume g: "g \<in> set rest"
    with Cons.prems(1) have "name g \<noteq> name f" by (metis distinct.simps(2) image_eqI list.simps(9) set_map)
    moreover from g Cons.prems(2) have "\<not> has_entry (folders (store s a)) (name g)" by simp
    ultimately show "\<not> has_entry (folders (store s1 a)) (name g)"
      using keys1 by (auto simp: has_entry_def own_key_def split: if_splits)
  qed
  from Cons.prems(1) have d: "distinct (map name rest)" by simp
  from Cons.prems(3) have p3: "\<forall>f \<in> set rest. found (name f) \<longrightarrow> (\<forall>t. \<exists>res. searchTMDB e t k (name f) = (200, Some res))" by simp
  from Cons.prems(4) have p4: "\<forall>f \<in> set rest. \<not> found (name f) \<longrightarrow> (\<forall>t res. searchTMDB e t k (name f) \<noteq> (200, Some res))" by simp
  from Cons.IH [OF d still p3 p4 rest] keys1 n1 m1 show ?case by auto
qed

text \<open>
  The counter of new entries counts the keys the loop adds, and a listed folder
  that the search always finds has its record once the loop is over.
\<close>

lemma visit_folders_grows:
  "visit_folders e k r a dirs (n, m, s) = (n', m', s') \<Longrightarrow>
     tick s \<le> tick s' \<and> n \<le> n'
   \<and> n' + length (folders (store s a)) = n + length (folders (store s' a))"
proof (induction dirs arbitrary: n m s)
  case Nil
  then show ?case by simp
next
  case (Cons f rest)
  obtain n1 m1 s1 where turn: "visit_folder e k r a f (n, m, s) = (n1, m1, s1)"
    by (metis prod_cases3)
  with Cons.prems have "visit_folders e k r a rest (n1, m1, s1) = (n', m', s')" by simp
  from Cons.IH [OF this] visit_folder_grows [OF turn] show ?case by simp
qed

lemma visit_folders_stores:
  assumes "f \<in> set dirs"
    and "\<not> has_entry (folders (store s a)) (name f)"
    and "\<forall>t. searchTMDB e t k (name f) = (200, Some res)"
    and "visit_folders e k r a dirs (n, m, s) = (n', m', s')"
  shows "(\<exists>t. tick s < t \<and> t < tick s'
            \<and> map_of (folders (store s' a)) (name f)
                = Some (folder_record res (name f) (clock e t)))
       \<and> n < n'"
  using assms
proof (induction dirs arbitrary: n m s)
  case Nil
  then show ?case by simp
next
  case (Cons g rest)
  obtain n1 m1 s1 where turn: "visit_folder e k r a g (n, m, s) = (n1, m1, s1)"
    by (metis prod_cases3)
  with Cons.prems(4) have rest: "visit_folders e k r a rest (n1, m1, s1) = (n', m', s')"
    by simp
  show ?case
  proof (cases "name g = name f")
    case True
    from Cons.prems(2) True have unseen: "\<not> has_entry (folders (store s a)) (name g)"
      by simp
    from Cons.prems(3) True have found: "searchTMDB e (tick s) k (name g) = (200, Some res)"
      by simp
    from visit_folder_stores [OF unseen found turn] True
    have st: "map_of (folders (store s1 a)) (name f)
         = Some (folder_record res (name f) (clock e (Suc (tick s))))"
      and n1: "n1 = n + 1" and t1: "tick s1 = tick s + 3" by simp_all
    from visit_folders_keeps [OF rest st]
    have "map_of (folders (store s' a)) (name f)
         = Some (folder_record res (name f) (clock e (Suc (tick s))))" .
    moreover from visit_folders_grows [OF rest] t1 have "Suc (tick s) < tick s'" by simp
    moreover from visit_folders_grows [OF rest] n1 have "n < n'" by simp
    ultimately show ?thesis by blast
  next
    case False
    with Cons.prems(1) have mem: "f \<in> set rest" by auto
    from visit_folder_keys [OF turn] Cons.prems(2) False
    have still: "\<not> has_entry (folders (store s1 a)) (name f)"
      by (auto simp: has_entry_def own_key_def split: if_splits)
    from Cons.IH [OF mem still Cons.prems(3) rest] obtain t where
      "tick s1 < t" "t < tick s'"
      "map_of (folders (store s' a)) (name f) = Some (folder_record res (name f) (clock e t))"
      and "n1 < n'"
      by blast
    with visit_folder_grows(1,2) [OF turn] show ?thesis by (meson le_less_trans)
  qed
qed

subsection \<open>The steps around the loop\<close>

lemma verify_upload_frame:
  "store (verify_upload e r s) = store s"
  "cache (verify_upload e r s) = cache s"
  "next_ref (verify_upload e r s) = next_ref s"
  by (simp_all add: verify_upload_def Let_def await_fields split: js.splits)

lemma verify_upload_trace:
  "\<exists>evs. trace (verify_upload e r s) = trace s @ evs
     \<and> listed (map fst evs) = [] \<and> uploads (map fst evs) = [] \<and> searched (map fst evs) = []"
  by (auto simp: verify_upload_def Let_def await_fields split: js.splits)

text \<open>What the last steps do, whatever the upload answers.\<close>

lemma persist_store:
  assumes "persist e r a N (n, m, s) = (out, s')"
  shows "store s' = (store s)(a := (store s a)\<lparr>last_refresh := clock e (tick s)\<rparr>)"
    and "next_ref s' = next_ref s"
  using assms
  by (auto simp: persist_def Let_def date_now_def set_last_refresh_def await_fields
      verify_upload_frame setCachedMetaInfo_def invalidateMetaInfoCache_def
      split: js.splits)

lemma persist_trace:
  assumes "persist e r a N (n, m, s) = (out, s')"
  shows "\<exists>snap evs. trace s' = trace s @ (UploadFile (metainfoPath r) (store s' a), snap) # evs
     \<and> listed (map fst evs) = [] \<and> uploads (map fst evs) = [] \<and> searched (map fst evs) = []"
proof (cases "uploadFile e (Suc (tick s)) (metainfoPath r)
                ((store s a)\<lparr>last_refresh := clock e (tick s)\<rparr>)")
  case Throws
  with assms show ?thesis
    by (auto simp: persist_def Let_def date_now_def set_last_refresh_def await_fields)
next
  case (Returns u)
  define s3 where "s3 = await r (UploadFile (metainfoPath r) ((store s a)\<lparr>last_refresh := clock e (tick s)\<rparr>))
      (set_last_refresh a (clock e (tick s)) (snd (date_now e s)))"
  from verify_upload_trace [of e r s3] obtain evs where
    v: "trace (verify_upload e r s3) = trace s3 @ evs"
      "listed (map fst evs) = []" "uploads (map fst evs) = []" "searched (map fst evs) = []"
    by blast
  from assms Returns have s': "s' = setCachedMetaInfo r a (invalidateMetaInfoCache r (verify_upload e r s3))"
    and "out = out"
    by (auto simp: persist_def Let_def date_now_def set_last_refresh_def await_fields s3_def)
  have "store s' a = (store s a)\<lparr>last_refresh := clock e (tick s)\<rparr>"
    using persist_store(1) [OF assms] by simp
  moreover have "trace s' = trace s3 @ evs"
    using s' v(1) by (simp add: setCachedMetaInfo_def invalidateMetaInfoCache_def)
  moreover have "\<exists>snap. trace s3 = trace s @ [(UploadFile (metainfoPath r) ((store s a)\<lparr>last_refresh := clock e (tick s)\<rparr>), snap)]"
    by (simp add: s3_def await_fields set_last_refresh_def date_now_def)
  ultimately show ?thesis using v(2,3,4) by auto
qed

lemma persist_failed:
  assumes "persist e r a N (n, m, s) = (out, s')"
    and "uploadFile e (Suc (tick s)) (metainfoPath r)
           ((store s a)\<lparr>last_refresh := clock e (tick s)\<rparr>) = Throws"
  shows "out = RefreshFailed" and "cache s' = cache s"
  using assms
  by (auto simp: persist_def Let_def date_now_def set_last_refresh_def await_fields)

lemma persist_done:
  assumes "persist e r a N (n, m, s) = (out, s')"
    and "uploadFile e (Suc (tick s)) (metainfoPath r)
           ((store s a)\<lparr>last_refresh := clock e (tick s)\<rparr>) = Returns u"
  shows "out = Refreshed
           \<lparr>sum_total = N, sum_new = n,
            sum_existing = int (length (folders (store s a))) - int n,
            sum_errors = m, sum_last_refresh = clock e (tick s)\<rparr>"
    and "cache s' = (cache s)(r := Some a)"
  using assms
  by (auto simp: persist_def Let_def date_now_def set_last_refresh_def await_fields
      verify_upload_frame setCachedMetaInfo_def invalidateMetaInfoCache_def)

lemma verify_upload_tick: "tick s < tick (verify_upload e r s)"
  by (simp add: verify_upload_def Let_def await_fields split: js.splits)

lemma persist_tick:
  assumes "persist e r a N (n, m, s) = (out, s')"
  shows "tick s < tick s'"
  using assms verify_upload_tick [of "await r (UploadFile (metainfoPath r) ((store s a)\<lparr>last_refresh := clock e (tick s)\<rparr>))
      (set_last_refresh a (clock e (tick s)) (snd (date_now e s)))" e r]
  by (auto simp: persist_def Let_def date_now_def set_last_refresh_def await_fields
      setCachedMetaInfo_def invalidateMetaInfoCache_def split: js.splits)

text \<open>Loading the document.\<close>

lemma load_metaInfo_cached:
  "getCachedMetaInfo r s = Some a \<Longrightarrow> load_metaInfo e r s = (Returns a, s)"
  by (simp add: load_metaInfo_def load_existing_def init_metaInfo_def)

lemma load_existing_frame:
  assumes "load_existing e r s = (ex, s1)"
  shows "store s1 = store s" "cache s1 = cache s" "next_ref s1 = next_ref s"
    and "\<exists>evs. trace s1 = trace s @ evs
           \<and> listed (map fst evs) = [] \<and> uploads (map fst evs) = [] \<and> searched (map fst evs) = []"
  using assms
  by (auto simp: load_existing_def Let_def await_fields
      split: option.splits js.splits if_splits reply.splits parsed.splits)

lemma init_metaInfo_frame:
  assumes "init_metaInfo e ex s1 = (res, s2)"
  shows "cache s2 = cache s1" "trace s2 = trace s1"
    and "\<forall>b < next_ref s1. store s2 b = store s1 b"
  using assms
  by (auto simp: init_metaInfo_def fresh_metaInfo_def Let_def alloc_def date_now_def
      split: existing.splits json_value.splits folders_field.splits prod.splits)

lemma load_metaInfo_frame:
  assumes "load_metaInfo e r s = (res, s2)"
  shows "cache s2 = cache s"
    and "\<forall>b < next_ref s. store s2 b = store s b"
    and "\<exists>evs. trace s2 = trace s @ evs
           \<and> listed (map fst evs) = [] \<and> uploads (map fst evs) = [] \<and> searched (map fst evs) = []"
proof -
  obtain ex s1 where l: "load_existing e r s = (ex, s1)" by (cases "load_existing e r s")
  with assms have i: "init_metaInfo e ex s1 = (res, s2)" by (simp add: load_metaInfo_def)
  from load_existing_frame [OF l] init_metaInfo_frame [OF i]
  show "cache s2 = cache s" and "\<forall>b < next_ref s. store s2 b = store s b"
    and "\<exists>evs. trace s2 = trace s @ evs
           \<and> listed (map fst evs) = [] \<and> uploads (map fst evs) = [] \<and> searched (map fst evs) = []"
    by simp_all
qed

subsection \<open>The shape of a run\<close>

lemma load_metaInfo_elsewhere:
  assumes "load_metaInfo e r s = (Returns a, s2)"
  shows "\<forall>b. b \<noteq> a \<longrightarrow> store s2 b = store s b"
proof -
  obtain ex s1 where l: "load_existing e r s = (ex, s1)" by (cases "load_existing e r s")
  with assms have i: "init_metaInfo e ex s1 = (Returns a, s2)" by (simp add: load_metaInfo_def)
  from i have "\<forall>b. b \<noteq> a \<longrightarrow> store s2 b = store s1 b"
    by (auto simp: init_metaInfo_def fresh_metaInfo_def Let_def alloc_def date_now_def
        split: existing.splits json_value.splits folders_field.splits prod.splits)
  with load_existing_frame(1) [OF l] show ?thesis by simp
qed

text \<open>The shape of a run that got its document.\<close>

lemma POST_run [consumes 2, case_names unlisted listed]:
  assumes "load_metaInfo e r s = (Returns a, s2)" and "POST e k r s = (out, s')"
  obtains
    (unlisted) "\<not> (\<exists>resp. fs_list e (tick s2) (list_body r None None) = HttpOk resp
                        \<and> list_code resp = 200)"
      "out = RefreshFailed \<or> out = ListFailed"
      "s' = await r (ListDir (list_body r None None)) s2"
  | (listed) resp n m s4 where
      "fs_list e (tick s2) (list_body r None None) = HttpOk resp" "list_code resp = 200"
      "visit_folders e k r a (filter is_dir (content resp))
         (0, 0, await r (ListDir (list_body r None None)) s2) = (n, m, s4)"
      "persist e r a (length (filter is_dir (content resp))) (n, m, s4) = (out, s')"
proof (cases "\<exists>resp. fs_list e (tick s2) (list_body r None None) = HttpOk resp
                  \<and> list_code resp = 200")
  case False
  with assms have "(out = RefreshFailed \<or> out = ListFailed)
      \<and> s' = await r (ListDir (list_body r None None)) s2"
    by (auto simp: POST_def listDirectory_def Let_def split: reply.splits)
  with False show ?thesis using unlisted by blast
next
  case True
  then obtain resp where resp: "fs_list e (tick s2) (list_body r None None) = HttpOk resp"
    "list_code resp = 200" by blast
  obtain n m s4 where loop: "visit_folders e k r a (filter is_dir (content resp))
         (0, 0, await r (ListDir (list_body r None None)) s2) = (n, m, s4)"
    by (metis prod_cases3)
  with assms resp have "persist e r a (length (filter is_dir (content resp))) (n, m, s4) = (out, s')"
    by (simp add: POST_def listDirectory_def Let_def)
  with resp loop show ?thesis using listed by blast
qed

text \<open>The calls of a run that listed the directory.\<close>

lemma run_calls:
  assumes load: "load_metaInfo e r s = (Returns a, s2)"
    and loop: "visit_folders e k r a dirs (0, 0, await r (ListDir req) s2) = (n, m, s4)"
    and last: "persist e r a N (n, m, s4) = (out, s')"
  shows "listed (issued s s') = [req]"
    and "uploads (issued s s') = [store s' a]"
    and "set (searched (issued s s'))
           \<subseteq> {name f |f. f \<in> set dirs \<and> \<not> has_entry (folders (store s2 a)) (name f)}"
proof -
  from load_metaInfo_frame(3) [OF load] obtain evs0 where
    t0: "trace s2 = trace s @ evs0" "listed (map fst evs0) = []" "uploads (map fst evs0) = []"
      "searched (map fst evs0) = []" by blast
  from visit_folders_trace [OF loop] obtain evs1 where
    t1: "trace s4 = trace (await r (ListDir req) s2) @ evs1"
      "listed (map fst evs1) = []" "uploads (map fst evs1) = []"
      "set (searched (map fst evs1))
         \<subseteq> {name f |f. f \<in> set dirs
               \<and> \<not> has_entry (folders (store (await r (ListDir req) s2) a)) (name f)}" by blast
  from persist_trace [OF last] obtain snap evs2 where
    t2: "trace s' = trace s4 @ (UploadFile (metainfoPath r) (store s' a), snap) # evs2"
      "listed (map fst evs2) = []" "uploads (map fst evs2) = []" "searched (map fst evs2) = []"
    by blast
  have "trace s' = trace s @ (evs0 @ (ListDir req, cached_doc r s2) # evs1
           @ (UploadFile (metainfoPath r) (store s' a), snap) # evs2)"
    using t0(1) t1(1) t2(1) by (simp add: await_fields)
  then have calls: "issued s s' = map fst evs0 @ ListDir req # map fst evs1
           @ UploadFile (metainfoPath r) (store s' a) # map fst evs2"
    by (simp add: issued_def)
  show "listed (issued s s') = [req]"
    using t0(2) t1(2) t2(2) by (simp add: calls listed_append)
  show "uploads (issued s s') = [store s' a]"
    using t0(3) t1(3) t2(3) by (simp add: calls uploads_append)
  show "set (searched (issued s s'))
           \<subseteq> {name f |f. f \<in> set dirs \<and> \<not> has_entry (folders (store s2 a)) (name f)}"
    using t0(4) t1(4) t2(4) by (simp add: calls searched_append await_fields)
qed

lemma unlisted_calls:
  assumes load: "load_metaInfo e r s = (Returns a, s2)"
    and "s' = await r (ListDir req) s2"
  shows "listed (issued s s') = [req]" and "uploads (issued s s') = []"
    and "searched (issued s s') = []"
proof -
  from load_metaInfo_frame(3) [OF load] obtain evs0 where
    t0: "trace s2 = trace s @ evs0" "listed (map fst evs0) = []" "uploads (map fst evs0) = []"
      "searched (map fst evs0) = []" by blast
  have calls: "issued s s' = map fst evs0 @ [ListDir req]"
    using t0(1) assms(2) by (simp add: issued_def await_fields)
  show "listed (issued s s') = [req]" using t0(2) by (simp add: calls listed_append)
  show "uploads (issued s s') = []" using t0(3) by (simp add: calls uploads_append)
  show "searched (issued s s') = []" using t0(4) by (simp add: calls searched_append)
qed

lemma persist_committed:
  assumes "persist e r a N (n, m, s) = (Refreshed sm, s')"
  shows "cache s' = (cache s)(r := Some a)"
proof (cases "uploadFile e (Suc (tick s)) (metainfoPath r)
                ((store s a)\<lparr>last_refresh := clock e (tick s)\<rparr>)")
  case Throws
  from persist_failed(1) [OF assms Throws] show ?thesis by simp
next
  case (Returns u)
  from persist_done(2) [OF assms Returns] show ?thesis .
qed

lemma filter_same_name:
  "distinct (map g xs) \<Longrightarrow> x \<in> set xs \<Longrightarrow> filter (\<lambda>y. g y = g x) xs = [x]"
proof (induction xs)
  case Nil
  then show ?case by simp
next
  case (Cons y ys)
  show ?case
  proof (cases "y = x")
    case True
    with Cons.prems(1) have "\<forall>z \<in> set ys. g z \<noteq> g x" by (metis distinct.simps(2) image_eqI list.simps(9) set_map)
    then have "filter (\<lambda>z. g z = g x) ys = []" by (simp add: filter_empty_conv)
    with True show ?thesis by simp
  next
    case False
    with Cons.prems have "x \<in> set ys" "g y \<noteq> g x" by auto
    with Cons show ?thesis by simp
  qed
qed

lemma serve_first_page:
  "content (serve_page entries (list_body p None None)) = take 100 entries"
  "list_code (serve_page entries (list_body p None None)) = 200"
  by (simp_all add: serve_page_def list_body_def)

subsection \<open>Loading, and what the cache shows meanwhile\<close>

text \<open>Loading, case by case.\<close>

lemma load_metaInfo_miss_new:
  assumes "getCachedMetaInfo r s = None" and "load_metaInfo e r s = (Returns a, s2)"
  shows "a = next_ref s" and "next_ref s2 = Suc (next_ref s)"
  using assms
  by (auto simp: load_metaInfo_def load_existing_def init_metaInfo_def fresh_metaInfo_def
      Let_def alloc_def date_now_def await_def
      split: option.splits js.splits if_splits reply.splits parsed.splits
        json_value.splits folders_field.splits prod.splits)

lemma load_metaInfo_throws_iff:
  "fst (load_metaInfo e r s) = Throws \<longleftrightarrow>
     getCachedMetaInfo r s = None
   \<and> (\<exists>resp. fs_get e (tick s) (metainfoPath r) = HttpOk resp
          \<and> get_code resp = 200 \<and> truthy (raw_url resp)
          \<and> download e (Suc (tick s)) (the (raw_url resp)) = HttpOk (Parsed Primitive))"
  by (auto simp: load_metaInfo_def load_existing_def init_metaInfo_def fresh_metaInfo_def
      getFile_def Let_def alloc_def date_now_def await_def
      split: option.splits js.splits if_splits reply.splits parsed.splits
        json_value.splits folders_field.splits prod.splits)

lemma load_metaInfo_unusable:
  assumes miss: "getCachedMetaInfo r s = None"
    and unusable: "\<not> (\<exists>resp v. fs_get e (tick s) (metainfoPath r) = HttpOk resp
          \<and> get_code resp = 200 \<and> truthy (raw_url resp)
          \<and> download e (Suc (tick s)) (the (raw_url resp)) = HttpOk (Parsed v)
          \<and> (v = Primitive \<or> (\<exists>fs t. v = Object (Folders fs) t)))"
  shows "\<exists>a s2. load_metaInfo e r s = (Returns a, s2) \<and> folders (store s2 a) = []"
  using assms
  by (auto simp: load_metaInfo_def load_existing_def init_metaInfo_def fresh_metaInfo_def
      getFile_def Let_def alloc_def date_now_def await_def
      split: option.splits js.splits if_splits reply.splits parsed.splits
        json_value.splits folders_field.splits prod.splits)

text \<open>What the cache shows during a run that did not start from it.\<close>

lemma snapshots_extend:
  "trace s' = trace s @ evs \<Longrightarrow> snapshots s s' = map snd evs"
  by (simp add: snapshots_def)

lemma await_miss:
  "cache s r = None \<Longrightarrow> trace (await r ev s) = trace s @ [(ev, None)]"
  by (simp add: await_def cached_doc_def getCachedMetaInfo_def)

lemma load_existing_hidden:
  assumes "cache s r = None" and "load_existing e r s = (ex, s1)"
  shows "\<exists>evs. trace s1 = trace s @ evs \<and> (\<forall>x \<in> set evs. snd x = None)"
  using assms
  by (auto simp: load_existing_def Let_def await_def cached_doc_def getCachedMetaInfo_def
      split: js.splits if_splits reply.splits parsed.splits)

lemma load_metaInfo_hidden:
  assumes "cache s r = None" and "load_metaInfo e r s = (res, s2)"
  shows "\<exists>evs. trace s2 = trace s @ evs \<and> (\<forall>x \<in> set evs. snd x = None)"
proof -
  obtain ex s1 where l: "load_existing e r s = (ex, s1)" by (cases "load_existing e r s")
  with assms have i: "init_metaInfo e ex s1 = (res, s2)" by (simp add: load_metaInfo_def)
  from load_existing_hidden [OF assms(1) l] init_metaInfo_frame(2) [OF i] show ?thesis by simp
qed

lemma visit_folder_hidden:
  assumes "cache s r = None" and "visit_folder e k r a f (n, m, s) = (n', m', s')"
  shows "\<exists>evs. trace s' = trace s @ evs \<and> (\<forall>x \<in> set evs. snd x = None)"
  using assms(2,1)
  by (cases rule: visit_folder_cases [of s a f e k r n m];
      auto simp: await_def cached_doc_def getCachedMetaInfo_def set_folder_def date_now_def)

lemma visit_folders_hidden:
  "cache s r = None \<Longrightarrow> visit_folders e k r a dirs (n, m, s) = (n', m', s') \<Longrightarrow>
   \<exists>evs. trace s' = trace s @ evs \<and> (\<forall>x \<in> set evs. snd x = None)"
proof (induction dirs arbitrary: n m s)
  case Nil
  then show ?case by simp
next
  case (Cons f rest)
  obtain n1 m1 s1 where turn: "visit_folder e k r a f (n, m, s) = (n1, m1, s1)"
    by (metis prod_cases3)
  with Cons.prems have rest: "visit_folders e k r a rest (n1, m1, s1) = (n', m', s')" by simp
  from visit_folder_frame(1) [OF turn] Cons.prems(1) have c1: "cache s1 r = None" by simp
  from visit_folder_hidden [OF Cons.prems(1) turn] obtain evs1 where
    e1: "trace s1 = trace s @ evs1" "\<forall>x \<in> set evs1. snd x = None" by blast
  from Cons.IH [OF c1 rest] obtain evs2 where
    e2: "trace s' = trace s1 @ evs2" "\<forall>x \<in> set evs2. snd x = None" by blast
  have "trace s' = trace s @ (evs1 @ evs2)" using e1(1) e2(1) by simp
  moreover have "\<forall>x \<in> set (evs1 @ evs2). snd x = None" using e1(2) e2(2) by auto
  ultimately show ?case by blast
qed

lemma verify_upload_hidden:
  "cache s r = None \<Longrightarrow>
   \<exists>evs. trace (verify_upload e r s) = trace s @ evs \<and> (\<forall>x \<in> set evs. snd x = None)"
  by (auto simp: verify_upload_def Let_def await_def cached_doc_def getCachedMetaInfo_def
      split: js.splits)

lemma persist_hidden:
  assumes "cache s r = None" and "persist e r a N (n, m, s) = (out, s')"
  shows "\<exists>evs. trace s' = trace s @ evs \<and> (\<forall>x \<in> set evs. snd x = None)"
proof -
  define s3 where "s3 = await r (UploadFile (metainfoPath r) ((store s a)\<lparr>last_refresh := clock e (tick s)\<rparr>))
      (set_last_refresh a (clock e (tick s)) (snd (date_now e s)))"
  have c3: "cache s3 r = None" using assms(1)
    by (simp add: s3_def await_fields set_last_refresh_def date_now_def)
  have t3: "trace s3 = trace s @ [(UploadFile (metainfoPath r) ((store s a)\<lparr>last_refresh := clock e (tick s)\<rparr>), None)]"
    using assms(1)
    by (simp add: s3_def await_def cached_doc_def getCachedMetaInfo_def set_last_refresh_def date_now_def)
  from verify_upload_hidden [OF c3, of e] obtain evs where
    v: "trace (verify_upload e r s3) = trace s3 @ evs" "\<forall>x \<in> set evs. snd x = None" by blast
  from assms(2) have "trace s' = trace s3 \<or> trace s' = trace (verify_upload e r s3)"
    by (auto simp: persist_def Let_def date_now_def set_last_refresh_def await_fields s3_def
        setCachedMetaInfo_def invalidateMetaInfoCache_def split: js.splits)
  then show ?thesis
  proof
    assume "trace s' = trace s3"
    with t3 show ?thesis by simp
  next
    assume "trace s' = trace (verify_upload e r s3)"
    with t3 v have "trace s' = trace s @ ((UploadFile (metainfoPath r) ((store s a)\<lparr>last_refresh := clock e (tick s)\<rparr>), None) # evs)"
      by simp
    moreover have "\<forall>x \<in> set ((UploadFile (metainfoPath r) ((store s a)\<lparr>last_refresh := clock e (tick s)\<rparr>), None) # evs). snd x = None"
      using v(2) by simp
    ultimately show ?thesis by blast
  qed
qed

lemma same_cached:
  "cache s' p = cache s p \<Longrightarrow> (\<forall>b. cache s p = Some b \<longrightarrow> store s' b = store s b) \<Longrightarrow>
   cached_doc p s' = cached_doc p s"
  by (cases "cache s p") (simp_all add: cached_doc_def getCachedMetaInfo_def)

subsection \<open>Slices and pages\<close>

lemma slice_length:
  "length (slice xs start fin) =
     (let len = int (length xs);
          k = (if start < 0 then max (len + start) 0 else min start len);
          final = (if fin < 0 then max (len + fin) 0 else min fin len)
      in nat (min (final - k) (len - k)))"
  by (auto simp: slice_def Let_def)

lemma slice_beyond: "0 \<le> start \<Longrightarrow> int (length xs) \<le> start \<Longrightarrow> slice xs start fin = []"
  by (auto simp: slice_def Let_def)

lemma slice_page_zero: "0 < pageSize \<Longrightarrow> slice xs (- pageSize) 0 = []"
  by (auto simp: slice_def Let_def)

lemma GET_cached:
  "getCachedMetaInfo r s = Some a \<Longrightarrow>
   GET e r page pageSize s = (Listing (paginate (store s a) page pageSize), s)"
  by (simp add: GET_def)

subsection \<open>The search helper\<close>

lemma filter_first_split:
  "filter P xs = y # ys \<Longrightarrow>
     \<exists>before after. xs = before @ y # after \<and> (\<forall>x \<in> set before. \<not> P x) \<and> P y"
proof (induction xs)
  case Nil
  then show ?case by simp
next
  case (Cons x xs)
  show ?case
  proof (cases "P x")
    case True
    with Cons.prems have "x = y" by simp
    with True have "x # xs = [] @ y # xs \<and> (\<forall>z \<in> set []. \<not> P z) \<and> P y" by simp
    then show ?thesis by blast
  next
    case False
    with Cons.prems have "filter P xs = y # ys" by simp
    from Cons.IH [OF this] obtain before after
      where "xs = before @ y # after" "\<forall>z \<in> set before. \<not> P z" "P y" by blast
    with False have "x # xs = (x # before) @ y # after \<and> (\<forall>z \<in> set (x # before). \<not> P z) \<and> P y"
      by simp
    then show ?thesis by blast
  qed
qed

text \<open>
  C7.  For every answer of the provider that carries a result list, \<open>searchTMDB\<close>
  looks only at the entries whose media type is \<open>movie\<close> or \<open>tv\<close>.  If there is
  none, it returns the no-match value (code 404 with no result; nothing is
  thrown).  Otherwise it returns code 200 with the first such entry in the
  provider's order: every entry before it has another media type, so no ranking
  takes place.
\<close>

theorem searchTMDB_first_recognised:
  assumes "apiKey \<noteq> []" and "tmdb e t query = HttpOk results"
  shows "(\<not> (\<exists>item \<in> set results. recognised item)
            \<longrightarrow> searchTMDB e t apiKey query = (404, None))
       \<and> ((\<exists>item \<in> set results. recognised item)
            \<longrightarrow> (\<exists>before best after.
                   results = before @ best # after
                 \<and> (\<forall>item \<in> set before. \<not> recognised item)
                 \<and> recognised best
                 \<and> searchTMDB e t apiKey query = (200, Some best)))"
proof (cases "filter recognised results")
  case Nil
  then have none: "\<not> (\<exists>item \<in> set results. recognised item)"
    by (simp add: filter_empty_conv)
  from Nil assms have "searchTMDB e t apiKey query = (404, None)"
    by (simp add: searchTMDB_def)
  with none show ?thesis by blast
next
  case (Cons best others)
  from filter_first_split [OF Cons] obtain before after
    where split: "results = before @ best # after"
      "\<forall>item \<in> set before. \<not> recognised item" "recognised best" by blast
  from split have some: "\<exists>item \<in> set results. recognised item" by auto
  from Cons assms have "searchTMDB e t apiKey query = (200, Some best)"
    by (simp add: searchTMDB_def)
  with split have "\<exists>before best after.
      results = before @ best # after
    \<and> (\<forall>item \<in> set before. \<not> recognised item)
    \<and> recognised best
    \<and> searchTMDB e t apiKey query = (200, Some best)" by blast
  with some show ?thesis by simp
qed

theorem searchTMDB_first_recognised_witness:
  "''key'' \<noteq> []
   \<and> tmdb (sample_env always_movie [] True) 0 ''The Matrix''
       = HttpOk [sample_result ''person'', sample_result ''movie'']
   \<and> recognised (sample_result ''movie'')
   \<and> \<not> recognised (sample_result ''person'')
   \<and> searchTMDB (sample_env always_movie [] True) 0 ''key'' ''The Matrix''
       = (200, Some (sample_result ''movie''))"
  using searchTMDB_first_recognised
    [of "''key''" "sample_env always_movie [] True" 0 "''The Matrix''"
        "[sample_result ''person'', sample_result ''movie'']"]
  by (simp add: sample_env_def always_movie_def recognised_def sample_result_def searchTMDB_def)

subsection \<open>The refresh run\<close>

text \<open>
  C3.  A run never searches for a name that is a key of the document it starts
  from.  When every directory of the listing is such a key (a second run with
  no new remote folder), the run makes no search call, leaves \<open>folders\<close> as it
  is, entry for entry, and changes nothing in memory but \<open>last_refresh\<close> of the
  document, which it then uploads.
\<close>

theorem refresh_skips_known_folders:
  assumes load: "load_metaInfo e rootPath s = (Returns a, s2)"
    and run: "POST e tmdbApiKey rootPath s = (out, s')"
  shows "(\<forall>q \<in> set (searched (issued s s')). \<not> own_key (folders (store s2 a)) q)
       \<and> ((\<exists>resp. fs_list e (tick s2) (list_body rootPath None None) = HttpOk resp
                 \<and> list_code resp = 200
                 \<and> (\<forall>f \<in> set (content resp).
                       is_dir f \<longrightarrow> own_key (folders (store s2 a)) (name f)))
            \<longrightarrow> searched (issued s s') = []
              \<and> folders (store s' a) = folders (store s2 a)
              \<and> store s' a = (store s2 a)\<lparr>last_refresh := clock e (Suc (tick s2))\<rparr>
              \<and> (\<forall>b. b \<noteq> a \<longrightarrow> store s' b = store s2 b)
              \<and> uploads (issued s s') = [store s' a])"
  using load run
proof (cases rule: POST_run)
  case unlisted
  from unlisted_calls [OF load unlisted(3)] unlisted(1) show ?thesis by auto
next
  case (listed resp n m s4)
  let ?dirs = "filter is_dir (content resp)"
  let ?s3 = "await rootPath (ListDir (list_body rootPath None None)) s2"
  note calls = run_calls [OF load listed(3) listed(4)]
  have never: "\<forall>q \<in> set (searched (issued s s')). \<not> own_key (folders (store s2 a)) q"
    using calls(3) by (auto simp: has_entry_def)
  have known: "searched (issued s s') = []
              \<and> folders (store s' a) = folders (store s2 a)
              \<and> store s' a = (store s2 a)\<lparr>last_refresh := clock e (Suc (tick s2))\<rparr>
              \<and> (\<forall>b. b \<noteq> a \<longrightarrow> store s' b = store s2 b)
              \<and> uploads (issued s s') = [store s' a]"
    if all: "\<forall>f \<in> set (content resp). is_dir f \<longrightarrow> own_key (folders (store s2 a)) (name f)"
  proof -
    from all have "\<forall>f \<in> set ?dirs. has_entry (folders (store ?s3 a)) (name f)"
      by (simp add: has_entry_def await_fields)
    from visit_folders_nothing_new [OF this] listed(3)
    have same: "n = 0" "m = 0" "s4 = ?s3" by simp_all
    from persist_store(1) [OF listed(4)] same
    have st: "store s' = (store s2)(a := (store s2 a)\<lparr>last_refresh := clock e (Suc (tick s2))\<rparr>)"
      by (simp add: await_fields)
    from all have "{name f |f. f \<in> set ?dirs \<and> \<not> has_entry (folders (store s2 a)) (name f)} = {}"
      by (auto simp: has_entry_def)
    with calls(3) have "set (searched (issued s s')) \<subseteq> {}" by (simp only:)
    then have "searched (issued s s') = []" by simp
    with st calls(2) show ?thesis by simp
  qed
  from listed(1) have "\<And>resp'. fs_list e (tick s2) (list_body rootPath None None) = HttpOk resp'
      \<Longrightarrow> resp' = resp" by simp
  with never known show ?thesis by blast
qed

theorem refresh_skips_known_folders_witness:
  "load_metaInfo (sample_env always_movie [dir ''a'', plain_file ''notes.txt'', dir ''b''] True)
       ''/'' (warm_state two_known) = (Returns 0, warm_state two_known)
   \<and> own_key (folders two_known) ''a'' \<and> own_key (folders two_known) ''b''
   \<and> searched (issued (warm_state two_known)
         (snd (POST (sample_env always_movie [dir ''a'', plain_file ''notes.txt'', dir ''b''] True)
                 ''key'' ''/'' (warm_state two_known)))) = []
   \<and> store (snd (POST (sample_env always_movie [dir ''a'', plain_file ''notes.txt'', dir ''b''] True)
                 ''key'' ''/'' (warm_state two_known))) 0
       = two_known\<lparr>last_refresh := 1001\<rparr>"
  using refresh_skips_known_folders
    [of "sample_env always_movie [dir ''a'', plain_file ''notes.txt'', dir ''b''] True"
        "''/''" "warm_state two_known" 0 "warm_state two_known" "''key''"
        "fst (POST (sample_env always_movie [dir ''a'', plain_file ''notes.txt'', dir ''b''] True)
                 ''key'' ''/'' (warm_state two_known))"
        "snd (POST (sample_env always_movie [dir ''a'', plain_file ''notes.txt'', dir ''b''] True)
                 ''key'' ''/'' (warm_state two_known))"]
  by (simp add: run_defs)

text \<open>
  C8.  Every entry of the document a run starts from is, with the same record,
  an entry of the document at the end of the run, of every document the run
  hands to \<open>uploadFile\<close>, and of the document the cache holds after a run that
  succeeded: the run only adds keys.  The remote listing plays no part, so this
  holds for folders that the listing no longer shows.
\<close>

theorem refresh_keeps_entries:
  assumes load: "load_metaInfo e rootPath s = (Returns a, s2)"
    and run: "POST e tmdbApiKey rootPath s = (out, s')"
    and entry: "map_of (folders (store s2 a)) key = Some rec"
  shows "map_of (folders (store s' a)) key = Some rec
       \<and> (\<forall>doc \<in> set (uploads (issued s s')). map_of (folders doc) key = Some rec)
       \<and> (\<forall>sm. out = Refreshed sm \<longrightarrow> cached_doc rootPath s' = Some (store s' a))"
  using load run
proof (cases rule: POST_run)
  case unlisted
  from unlisted_calls(2) [OF load unlisted(3)] unlisted(2,3) entry show ?thesis
    by (auto simp: await_fields)
next
  case (listed resp n m s4)
  from visit_folders_keeps [OF listed(3)] entry
  have "map_of (folders (store s4 a)) key = Some rec" by (simp add: await_fields)
  with persist_store(1) [OF listed(4)]
  have kept: "map_of (folders (store s' a)) key = Some rec" by simp
  have "cached_doc rootPath s' = Some (store s' a)" if "out = Refreshed sm" for sm
    using persist_committed [of e rootPath a _ n m s4 sm s'] listed(4) that
    by (simp add: cached_doc_def getCachedMetaInfo_def)
  with kept run_calls(2) [OF load listed(3) listed(4)] show ?thesis by simp
qed

theorem refresh_keeps_entries_witness:
  "map_of (folders (store (warm_state two_known) 0)) ''a'' = Some (sample_record 1)
   \<and> map_of (folders (store (snd (POST (sample_env always_movie [dir ''c''] True)
                 ''key'' ''/'' (warm_state two_known))) 0)) ''a'' = Some (sample_record 1)
   \<and> map fst (folders (store (snd (POST (sample_env always_movie [dir ''c''] True)
                 ''key'' ''/'' (warm_state two_known))) 0)) = [''a'', ''b'', ''c'']"
  using refresh_keeps_entries
    [of "sample_env always_movie [dir ''c''] True" "''/''" "warm_state two_known" 0
        "warm_state two_known" "''key''"
        "fst (POST (sample_env always_movie [dir ''c''] True) ''key'' ''/'' (warm_state two_known))"
        "snd (POST (sample_env always_movie [dir ''c''] True) ''key'' ''/'' (warm_state two_known))"
        "''a''" "sample_record 1"]
  by (simp add: run_defs)

text \<open>
  C9.  A run that lists a directory for which the document has no entry, and
  whose search returns code 200 with a result: at the end of the run the
  document holds, under the folder's name, a record whose title is the result's
  \<open>title\<close> if it has one, else its \<open>name\<close> if it has one, else the folder's name;
  whose release date is the result's \<open>release_date\<close> if it has one, else its
  \<open>first_air_date\<close> if it has one, else the empty string; and whose
  \<open>last_updated\<close> is a reading of the clock taken during the run, after the
  listing.  That document is the one the run hands to \<open>uploadFile\<close> and, when the
  run succeeds, the one the cache then holds.  The \<open>new\<close> count of the response
  is the number of keys the run added to the document, one for each record it
  stored, so it is at least one here.  ``Has one'' is the truth test of \<open>||\<close>:
  the field is there and is not the empty string.
\<close>

theorem refresh_stores_found_record:
  assumes load: "load_metaInfo e rootPath s = (Returns a, s2)"
    and listing: "fs_list e (tick s2) (list_body rootPath None None) = HttpOk resp"
      "list_code resp = 200"
    and folder: "folder \<in> set (content resp)" "is_dir folder"
    and unseen: "\<not> has_entry (folders (store s2 a)) (name folder)"
    and found: "\<forall>t. searchTMDB e t tmdbApiKey (name folder) = (200, Some result)"
    and run: "POST e tmdbApiKey rootPath s = (out, s')"
  shows "(\<exists>t. tick s2 < t \<and> t < tick s'
            \<and> map_of (folders (store s' a)) (name folder)
                = Some \<lparr>tmdb_id = r_id result,
                        title = (if truthy (r_title result) then the (r_title result)
                                 else if truthy (r_name result) then the (r_name result)
                                 else name folder),
                        poster_path = r_poster_path result,
                        release_date = (if truthy (r_release_date result)
                                        then the (r_release_date result)
                                        else if truthy (r_first_air_date result)
                                             then the (r_first_air_date result)
                                        else []),
                        overview = r_overview result,
                        vote_average = r_vote_average result,
                        media_type = r_media_type result,
                        last_updated = clock e t\<rparr>)
       \<and> uploads (issued s s') = [store s' a]
       \<and> (\<forall>sm. out = Refreshed sm \<longrightarrow>
             cached_doc rootPath s' = Some (store s' a)
           \<and> 1 \<le> sum_new sm
           \<and> sum_new sm + length (folders (store s2 a)) = length (folders (store s' a)))"
  using load run
proof (cases rule: POST_run)
  case unlisted
  with listing show ?thesis by simp
next
  case (listed resp' n m s4)
  let ?s3 = "await rootPath (ListDir (list_body rootPath None None)) s2"
  from listed(1) listing(1) have same: "resp' = resp" by simp
  note loop = listed(3) [unfolded same]
  note last = listed(4) [unfolded same]
  have rec: "\<And>t. folder_record result (name folder) (clock e t)
      = \<lparr>tmdb_id = r_id result,
                        title = (if truthy (r_title result) then the (r_title result)
                                 else if truthy (r_name result) then the (r_name result)
                                 else name folder),
                        poster_path = r_poster_path result,
                        release_date = (if truthy (r_release_date result)
                                        then the (r_release_date result)
                                        else if truthy (r_first_air_date result)
                                             then the (r_first_air_date result)
                                        else []),
                        overview = r_overview result,
                        vote_average = r_vote_average result,
                        media_type = r_media_type result,
                        last_updated = clock e t\<rparr>"
    by (simp add: folder_record_def or_else_def truthy_def split: option.splits)
  from folder have mem: "folder \<in> set (filter is_dir (content resp))" by simp
  from unseen have u3: "\<not> has_entry (folders (store ?s3 a)) (name folder)"
    by (simp add: await_fields)
  from visit_folders_stores [OF mem u3 found loop] obtain t where
    t: "tick ?s3 < t" "t < tick s4"
      "map_of (folders (store s4 a)) (name folder)
         = Some (folder_record result (name folder) (clock e t))"
    and pos: "0 < n" by blast
  from persist_store(1) [OF last]
  have st: "folders (store s' a) = folders (store s4 a)" by simp
  from t(1) have "tick s2 < t" by (simp add: await_fields)
  moreover from t(2) persist_tick [OF last] have "t < tick s'" by simp
  ultimately have stored: "\<exists>t. tick s2 < t \<and> t < tick s'
            \<and> map_of (folders (store s' a)) (name folder)
                = Some (folder_record result (name folder) (clock e t))"
    using t(3) st by auto
  from visit_folders_grows [OF loop]
  have cnt: "n + length (folders (store s2 a)) = length (folders (store s4 a))"
    by (simp add: await_fields)
  have fin: "cached_doc rootPath s' = Some (store s' a)
           \<and> 1 \<le> sum_new sm
           \<and> sum_new sm + length (folders (store s2 a)) = length (folders (store s' a))"
    if ok: "out = Refreshed sm" for sm
  proof (cases "uploadFile e (Suc (tick s4)) (metainfoPath rootPath)
                  ((store s4 a)\<lparr>last_refresh := clock e (tick s4)\<rparr>)")
    case Throws
    from persist_failed(1) [OF last Throws] ok show ?thesis by simp
  next
    case (Returns u)
    from persist_done [OF last Returns] ok have "sum_new sm = n"
      and "cache s' = (cache s4)(rootPath := Some a)" by auto
    with pos cnt st show ?thesis by (simp add: cached_doc_def getCachedMetaInfo_def)
  qed
  from stored fin run_calls(2) [OF load loop last] show ?thesis
    unfolding rec by blast
qed

theorem refresh_stores_found_record_witness:
  "load_metaInfo (sample_env always_movie
         [dir ''a'', plain_file ''notes.txt'', dir ''The Matrix (1999)''] True)
       ''/'' (warm_state two_known) = (Returns 0, warm_state two_known)
   \<and> \<not> has_entry (folders two_known) ''The Matrix (1999)''
   \<and> searchTMDB (sample_env always_movie
         [dir ''a'', plain_file ''notes.txt'', dir ''The Matrix (1999)''] True)
       1 ''key'' ''The Matrix (1999)'' = (200, Some (sample_result ''movie''))
   \<and> map_of (folders (store (snd (POST (sample_env always_movie
         [dir ''a'', plain_file ''notes.txt'', dir ''The Matrix (1999)''] True)
         ''key'' ''/'' (warm_state two_known))) 0)) ''The Matrix (1999)''
       = Some \<lparr>tmdb_id = 603, title = ''The Matrix'', poster_path = Some ''/m.jpg'',
               release_date = ''1999-03-31'', overview = ''A hacker learns the truth.'',
               vote_average = 8, media_type = ''movie'', last_updated = 1002\<rparr>
   \<and> uploads (issued (warm_state two_known) (snd (POST (sample_env always_movie
         [dir ''a'', plain_file ''notes.txt'', dir ''The Matrix (1999)''] True)
         ''key'' ''/'' (warm_state two_known))))
       = [\<lparr>folders = [(''a'', sample_record 1), (''b'', sample_record 2),
                        (''The Matrix (1999)'', sample_record 1002)],
            last_refresh = 1004\<rparr>]
   \<and> cached_doc ''/'' (snd (POST (sample_env always_movie
         [dir ''a'', plain_file ''notes.txt'', dir ''The Matrix (1999)''] True)
         ''key'' ''/'' (warm_state two_known)))
       = Some \<lparr>folders = [(''a'', sample_record 1), (''b'', sample_record 2),
                           (''The Matrix (1999)'', sample_record 1002)],
               last_refresh = 1004\<rparr>
   \<and> fst (POST (sample_env always_movie
         [dir ''a'', plain_file ''notes.txt'', dir ''The Matrix (1999)''] True)
         ''key'' ''/'' (warm_state two_known))
       = Refreshed \<lparr>sum_total = 2, sum_new = 1, sum_existing = 2, sum_errors = 0,
                    sum_last_refresh = 1004\<rparr>"
  using refresh_stores_found_record
    [of "sample_env always_movie
           [dir ''a'', plain_file ''notes.txt'', dir ''The Matrix (1999)''] True"
        "''/''" "warm_state two_known" 0 "warm_state two_known"
        "serve_page [dir ''a'', plain_file ''notes.txt'', dir ''The Matrix (1999)'']
           (list_body ''/'' None None)"
        "dir ''The Matrix (1999)''" "''key''" "sample_result ''movie''"
        "fst (POST (sample_env always_movie
           [dir ''a'', plain_file ''notes.txt'', dir ''The Matrix (1999)''] True)
           ''key'' ''/'' (warm_state two_known))"
        "snd (POST (sample_env always_movie
           [dir ''a'', plain_file ''notes.txt'', dir ''The Matrix (1999)''] True)
           ''key'' ''/'' (warm_state two_known))"]
  by (simp add: run_defs)

text \<open>
  C10.  A run sends at most one listing request (none when it fails before the
  listing), and the request asks for page 1 with 100 entries per page:
  \<open>listDirectory\<close> is called with the root path alone.  Against a service that
  pages its listing as the request asks, the run therefore searches only for
  directories among the first 100 entries, adds only such names to the document
  it started from, and reports as total the number of directories among the
  first 100 entries.
\<close>

theorem refresh_reads_first_page_only:
  assumes run: "POST e tmdbApiKey rootPath s = (out, s')"
  shows "(listed (issued s s') = []
            \<or> listed (issued s s') = [\<lparr>req_path = rootPath, req_page = 1, req_per_page = 100\<rparr>])
       \<and> ((\<forall>t req. fs_list e t req = HttpOk (serve_page entries req)) \<longrightarrow>
            set (searched (issued s s')) \<subseteq> name ` set (filter is_dir (take 100 entries))
          \<and> (\<forall>a s2. load_metaInfo e rootPath s = (Returns a, s2) \<longrightarrow>
                 fst ` set (folders (store s' a))
                   \<subseteq> fst ` set (folders (store s2 a))
                      \<union> name ` set (filter is_dir (take 100 entries)))
          \<and> (\<forall>sm. out = Refreshed sm \<longrightarrow>
                 sum_total sm = length (filter is_dir (take 100 entries))
               \<and> sum_total sm \<le> 100))"
proof (cases "load_metaInfo e rootPath s")
  case (Pair res s2)
  show ?thesis
  proof (cases res)
    case Throws
    with Pair run have o: "out = RefreshFailed" "s' = s2" by (simp_all add: POST_def)
    from load_metaInfo_frame(3) [OF Pair] obtain evs0 where
      "trace s2 = trace s @ evs0" "listed (map fst evs0) = []" "searched (map fst evs0) = []"
      by blast
    with o have "listed (issued s s') = []" "searched (issued s s') = []"
      by (simp_all add: issued_def)
    with o Pair Throws show ?thesis by simp
  next
    case (Returns a)
    with Pair have load: "load_metaInfo e rootPath s = (Returns a, s2)" by simp
    from load run show ?thesis
    proof (cases rule: POST_run)
      case unlisted
      have "store s' = store s2" using unlisted(3) by (simp add: await_fields)
      with unlisted_calls [OF load unlisted(3)] unlisted(1,2) load show ?thesis
        by (auto simp: list_body_def serve_first_page)
    next
      case (listed resp n m s4)
      let ?dirs = "filter is_dir (content resp)"
      note calls = run_calls [OF load listed(3) listed(4)]
      have first: "listed (issued s s') = [\<lparr>req_path = rootPath, req_page = 1, req_per_page = 100\<rparr>]"
        using calls(1) by (simp add: list_body_def)
      have paged: "set (searched (issued s s')) \<subseteq> name ` set (filter is_dir (take 100 entries))
          \<and> (\<forall>a s2. load_metaInfo e rootPath s = (Returns a, s2) \<longrightarrow>
                 fst ` set (folders (store s' a))
                   \<subseteq> fst ` set (folders (store s2 a))
                      \<union> name ` set (filter is_dir (take 100 entries)))
          \<and> (\<forall>sm. out = Refreshed sm \<longrightarrow>
                 sum_total sm = length (filter is_dir (take 100 entries))
               \<and> sum_total sm \<le> 100)"
        if srv: "\<forall>t req. fs_list e t req = HttpOk (serve_page entries req)"
      proof -
        from srv listed(1) have resp: "resp = serve_page entries (list_body rootPath None None)"
          by simp
        then have dirs: "?dirs = filter is_dir (take 100 entries)"
          by (simp add: serve_first_page)
        have q: "set (searched (issued s s')) \<subseteq> name ` set (filter is_dir (take 100 entries))"
          using calls(3) dirs by auto
        have "fst ` set (folders (store s4 a))
            \<subseteq> fst ` set (folders (store s2 a)) \<union> name ` set ?dirs"
          using visit_folders_keys_subset [OF listed(3)] by (auto simp: await_fields)
        with persist_store(1) [OF listed(4)] dirs
        have "fst ` set (folders (store s' a))
            \<subseteq> fst ` set (folders (store s2 a)) \<union> name ` set (filter is_dir (take 100 entries))"
          by simp
        with load have k: "\<forall>a s2. load_metaInfo e rootPath s = (Returns a, s2) \<longrightarrow>
                 fst ` set (folders (store s' a))
                   \<subseteq> fst ` set (folders (store s2 a))
                      \<union> name ` set (filter is_dir (take 100 entries))"
          by simp
        have len: "length (filter is_dir (take 100 entries)) \<le> 100"
          by (rule order_trans [OF length_filter_le]) simp
        have t: "sum_total sm = length (filter is_dir (take 100 entries))" if "out = Refreshed sm" for sm
        proof (cases "uploadFile e (Suc (tick s4)) (metainfoPath rootPath)
                    ((store s4 a)\<lparr>last_refresh := clock e (tick s4)\<rparr>)")
          case Throws
          from persist_failed(1) [OF listed(4) Throws] that show ?thesis by simp
        next
          case (Returns u)
          from persist_done(1) [OF listed(4) Returns] that dirs show ?thesis by simp
        qed
        with q k len show ?thesis by simp
      qed
      with first show ?thesis by blast
    qed
  qed
qed

theorem refresh_reads_first_page_only_witness:
  "length long_listing = 101
   \<and> listed (issued cold_state (snd (POST (sample_env always_movie long_listing True) ''key'' ''/'' cold_state)))
       = [\<lparr>req_path = ''/'', req_page = 1, req_per_page = 100\<rparr>]
   \<and> searched (issued cold_state (snd (POST (sample_env always_movie long_listing True) ''key'' ''/'' cold_state)))
       = [''early'']
   \<and> folder_names (store (snd (POST (sample_env always_movie long_listing True) ''key'' ''/'' cold_state)) 0)
       = [''early'']
   \<and> fst (POST (sample_env always_movie long_listing True) ''key'' ''/'' cold_state)
       = Refreshed \<lparr>sum_total = 1, sum_new = 1, sum_existing = 0, sum_errors = 0,
                    sum_last_refresh = 1006\<rparr>"
  using refresh_reads_first_page_only
    [of "sample_env always_movie long_listing True" "''key''" "''/''" cold_state
        "fst (POST (sample_env always_movie long_listing True) ''key'' ''/'' cold_state)"
        "snd (POST (sample_env always_movie long_listing True) ''key'' ''/'' cold_state)"
        long_listing]
  by (simp add: run_defs)

subsection \<open>Names that every object inherits\<close>

text \<open>
  C6.  Stated: a run that starts from an empty document over a listing with
  exactly three unseen directories, one of which the search has no match for,
  completes with \<open>new = 2\<close> and \<open>errors = 1\<close>, and uploads a document with exactly
  the two matched names as keys.  The code does not do this for a directory
  whose name every object inherits, such as \<open>constructor\<close>: the test
  \<open>metaInfo.folders[folder.name]\<close> finds the inherited property, and the run skips
  the directory as if it had been searched.  Here the document is empty, the
  listing shows \<open>constructor\<close>, \<open>b\<close> and \<open>c\<close>, and the search has a match for all
  but \<open>b\<close>.  The run reports \<open>new = 1\<close> and \<open>errors = 1\<close>, searches only for \<open>b\<close>
  and \<open>c\<close>, and uploads a document whose only key is \<open>c\<close>.
\<close>

theorem refresh_skips_inherited_name:
  "folders (store (snd (load_metaInfo
        (sample_env all_but_b [dir ''constructor'', dir ''b'', dir ''c''] True) ''/'' cold_state)) 0) = []
   \<and> searchTMDB (sample_env all_but_b [dir ''constructor'', dir ''b'', dir ''c''] True) 0 ''key''
        ''constructor'' = (200, Some (sample_result ''movie''))
   \<and> searchTMDB (sample_env all_but_b [dir ''constructor'', dir ''b'', dir ''c''] True) 0 ''key''
        ''b'' = (404, None)
   \<and> searchTMDB (sample_env all_but_b [dir ''constructor'', dir ''b'', dir ''c''] True) 0 ''key''
        ''c'' = (200, Some (sample_result ''movie''))
   \<and> fst (POST (sample_env all_but_b [dir ''constructor'', dir ''b'', dir ''c''] True)
          ''key'' ''/'' cold_state)
       = Refreshed \<lparr>sum_total = 3, sum_new = 1, sum_existing = 0, sum_errors = 1,
                    sum_last_refresh = 1008\<rparr>
   \<and> searched (issued cold_state
        (snd (POST (sample_env all_but_b [dir ''constructor'', dir ''b'', dir ''c''] True)
               ''key'' ''/'' cold_state))) = [''b'', ''c'']
   \<and> map folder_names (uploads (issued cold_state
        (snd (POST (sample_env all_but_b [dir ''constructor'', dir ''b'', dir ''c''] True)
               ''key'' ''/'' cold_state)))) = [[''c'']]"
  by (simp add: run_defs)

text \<open>
  For names that the test does not find, the scenario goes as expected.  A run
  that starts from an empty document and lists exactly three directories with
  distinct names, none of which the run's test finds in the document, where the
  search gives no match for one of them and a match for the two others, and
  whose upload succeeds, completes with \<open>new = 2\<close> and \<open>errors = 1\<close>; the document
  it uploads and caches has exactly the two matched names as keys.  The failed
  search does not abort the run.
\<close>

theorem refresh_tolerates_one_miss:
  assumes load: "load_metaInfo e rootPath s = (Returns a, s2)"
    and empty: "folders (store s2 a) = []"
    and listing: "fs_list e (tick s2) (list_body rootPath None None) = HttpOk resp"
      "list_code resp = 200"
    and three: "filter is_dir (content resp) = dirs" "length dirs = 3" "distinct (map name dirs)"
    and unseen: "\<forall>f \<in> set dirs. \<not> has_entry (folders (store s2 a)) (name f)"
    and miss: "missed \<in> set dirs" "\<forall>t. searchTMDB e t tmdbApiKey (name missed) = (404, None)"
    and found: "\<forall>f \<in> set dirs. f \<noteq> missed \<longrightarrow>
                  (\<forall>t. \<exists>res. searchTMDB e t tmdbApiKey (name f) = (200, Some res))"
    and upload: "\<forall>t doc. fs_put e t (metainfoPath rootPath) doc = HttpOk ()"
  shows "\<exists>sm s'. POST e tmdbApiKey rootPath s = (Refreshed sm, s')
           \<and> sum_total sm = 3 \<and> sum_new sm = 2 \<and> sum_errors sm = 1
           \<and> uploads (issued s s') = [store s' a]
           \<and> fst ` set (folders (store s' a)) = {name f |f. f \<in> set dirs \<and> f \<noteq> missed}
           \<and> cached_doc rootPath s' = Some (store s' a)"
proof -
  let ?s3 = "await rootPath (ListDir (list_body rootPath None None)) s2"
  let ?found = "\<lambda>q. q \<noteq> name missed"
  obtain out s' where run: "POST e tmdbApiKey rootPath s = (out, s')"
    by (cases "POST e tmdbApiKey rootPath s")
  obtain n m s4 where loop: "visit_folders e tmdbApiKey rootPath a dirs (0, 0, ?s3) = (n, m, s4)"
    by (metis prod_cases3)
  from run load listing three(1) loop
  have last: "persist e rootPath a (length dirs) (n, m, s4) = (out, s')"
    by (simp add: POST_def listDirectory_def Let_def)
  have same_name: "\<And>f. f \<in> set dirs \<Longrightarrow> (name f = name missed) = (f = missed)"
    using three(3) miss(1) by (meson distinct_map inj_onD)
  have u: "\<forall>f \<in> set dirs. \<not> has_entry (folders (store ?s3 a)) (name f)"
    using unseen by (simp add: await_fields)
  have y: "\<forall>f \<in> set dirs. ?found (name f) \<longrightarrow>
             (\<forall>t. \<exists>res. searchTMDB e t tmdbApiKey (name f) = (200, Some res))"
    using found by auto
  have no: "\<forall>f \<in> set dirs. \<not> ?found (name f) \<longrightarrow>
             (\<forall>t res. searchTMDB e t tmdbApiKey (name f) \<noteq> (200, Some res))"
    using miss(2) by simp
  from visit_folders_count [OF three(3) u y no loop]
  have n: "n = length (filter (\<lambda>f. name f \<noteq> name missed) dirs)"
    and m: "m = length (filter (\<lambda>f. name f = name missed) dirs)"
    and keys: "fst ` set (folders (store s4 a))
                 = {name f |f. f \<in> set dirs \<and> name f \<noteq> name missed}"
    using empty by (simp_all add: await_fields)
  from filter_same_name [OF three(3) miss(1)] m have m1: "m = 1" by simp
  have "length (filter (\<lambda>f. name f = name missed) dirs)
          + length (filter (\<lambda>f. name f \<noteq> name missed) dirs) = length dirs"
    using sum_length_filter_compl [of "\<lambda>f. name f = name missed" dirs] by simp
  with n m m1 three(2) have n2: "n = 2" by simp
  have keys': "fst ` set (folders (store s4 a)) = {name f |f. f \<in> set dirs \<and> f \<noteq> missed}"
    using keys same_name by auto
  have up: "uploadFile e (Suc (tick s4)) (metainfoPath rootPath)
              ((store s4 a)\<lparr>last_refresh := clock e (tick s4)\<rparr>) = Returns ()"
    using upload by (simp add: uploadFile_def)
  from persist_done [OF last up] obtain sm where
    out: "out = Refreshed sm" "sum_total sm = length dirs" "sum_new sm = n" "sum_errors sm = m"
      and cache: "cache s' = (cache s4)(rootPath := Some a)" by simp
  from persist_store(1) [OF last]
  have st: "folders (store s' a) = folders (store s4 a)" by simp
  have "cached_doc rootPath s' = Some (store s' a)"
    using cache by (simp add: cached_doc_def getCachedMetaInfo_def)
  with run out n2 m1 three(2) st keys' run_calls(2) [OF load loop last]
  show ?thesis by simp
qed

theorem refresh_tolerates_one_miss_witness:
  "searchTMDB (sample_env all_but_b [dir ''a'', dir ''b'', dir ''c''] True) 0 ''key'' ''b''
     = (404, None)
   \<and> fst (POST (sample_env all_but_b [dir ''a'', dir ''b'', dir ''c''] True) ''key'' ''/'' cold_state)
     = Refreshed \<lparr>sum_total = 3, sum_new = 2, sum_existing = 0, sum_errors = 1,
                  sum_last_refresh = 1011\<rparr>
   \<and> map fst (folders (store (snd (POST (sample_env all_but_b [dir ''a'', dir ''b'', dir ''c''] True)
                 ''key'' ''/'' cold_state)) 0)) = [''a'', ''c'']"
  using refresh_tolerates_one_miss
    [of "sample_env all_but_b [dir ''a'', dir ''b'', dir ''c''] True" "''/''" cold_state 0
        "snd (load_metaInfo (sample_env all_but_b [dir ''a'', dir ''b'', dir ''c''] True) ''/'' cold_state)"
        "serve_page [dir ''a'', dir ''b'', dir ''c''] (list_body ''/'' None None)"
        "[dir ''a'', dir ''b'', dir ''c'']" "dir ''b''" "''key''"]
  by (simp add: run_defs)

subsection \<open>A run that starts from the cached document\<close>

text \<open>
  C1.  Stated: at every call a refresh run awaits, the cache entry for the root
  path is the complete document from before the run or the complete document
  after it, so that a list request never sees some of the new entries without
  the others.  The code does not do this when the run starts from the cached
  document: the run then works on the cached object itself, and each entry it
  adds is in the cache at once.  Here the cache holds an empty document and the
  listing shows the directories \<open>a\<close> and \<open>b\<close>.  While the run waits for the pause
  after \<open>a\<close> and for the search for \<open>b\<close>, the cache shows a document with \<open>a\<close>
  and without \<open>b\<close>: neither the document before the run nor the one after it.
  A list request served at that moment returns the one record \<open>a\<close>.
\<close>

theorem refresh_from_cache_shows_partial_document:
  "cached_doc ''/'' (warm_state \<lparr>folders = [], last_refresh = 5\<rparr>)
     = Some \<lparr>folders = [], last_refresh = 5\<rparr>
   \<and> map fst (trace (snd (POST (sample_env always_movie [dir ''a'', dir ''b''] True) ''key'' ''/''
              (warm_state \<lparr>folders = [], last_refresh = 5\<rparr>))))
     = [ListDir \<lparr>req_path = ''/'', req_page = 1, req_per_page = 100\<rparr>,
        SearchTMDB ''a'', Sleep 300, SearchTMDB ''b'', Sleep 300,
        UploadFile ''/metainfo.json''
          \<lparr>folders = [(''a'', folder_record (sample_result ''movie'') ''a'' 1002),
                       (''b'', folder_record (sample_result ''movie'') ''b'' 1005)],
           last_refresh = 1007\<rparr>,
        GetFile ''/metainfo.json'']
   \<and> keys_seen (snd (POST (sample_env always_movie [dir ''a'', dir ''b''] True) ''key'' ''/''
              (warm_state \<lparr>folders = [], last_refresh = 5\<rparr>)))
     = [Some [], Some [], Some [''a''], Some [''a''], Some [''a'', ''b''],
        Some [''a'', ''b''], Some [''a'', ''b'']]
   \<and> map v_id (records (fst (GET (sample_env always_movie [dir ''a'', dir ''b''] True) ''/'' 1 20
        (snd (snd (visit_folder (sample_env always_movie [dir ''a'', dir ''b''] True) ''key'' ''/'' 0
           (dir ''a'')
           (0, 0, await ''/'' (ListDir (list_body ''/'' None None))
                    (warm_state \<lparr>folders = [], last_refresh = 5\<rparr>)))))))) = [''a'']"
  by (simp add: run_defs GET_def paginate_def slice_def to_video_def getTMDBImageUrl_def)

text \<open>
  C2.  Stated: when the upload fails, the run reports the failure and the cache
  entry for the root path is exactly what it was before the run.  The code
  reports the failure, but when the run started from the cached document the
  cached document has the new entries and the new \<open>last_refresh\<close> all the same:
  they were written into the cached object before the upload.
\<close>

theorem failed_upload_leaves_cached_document_changed:
  "fst (POST (sample_env always_movie [dir ''a'', dir ''b''] False) ''key'' ''/''
              (warm_state \<lparr>folders = [], last_refresh = 5\<rparr>)) = RefreshFailed
   \<and> cached_doc ''/'' (warm_state \<lparr>folders = [], last_refresh = 5\<rparr>)
     = Some \<lparr>folders = [], last_refresh = 5\<rparr>
   \<and> cached_doc ''/'' (snd (POST (sample_env always_movie [dir ''a'', dir ''b''] False) ''key'' ''/''
              (warm_state \<lparr>folders = [], last_refresh = 5\<rparr>)))
     = Some \<lparr>folders = [(''a'', folder_record (sample_result ''movie'') ''a'' 1002),
                        (''b'', folder_record (sample_result ''movie'') ''b'' 1005)],
            last_refresh = 1007\<rparr>"
  by (simp add: run_defs)

text \<open>
  A run that does not start from the cached document keeps its work to itself.
  When the cache has no entry for the root path and every cached object exists,
  the cache shows no document for the root path at any call of the run; the
  entries of other root paths stay as they are; after a run that failed the
  cache still has no entry; and after a run that succeeded the cache holds the
  document that was uploaded.
\<close>

theorem refresh_from_remote_is_atomic:
  assumes miss: "getCachedMetaInfo rootPath s = None"
    and exist: "\<forall>p b. cache s p = Some b \<longrightarrow> b < next_ref s"
    and run: "POST e tmdbApiKey rootPath s = (out, s')"
  shows "(\<forall>d \<in> set (snapshots s s'). d = None)
       \<and> (\<forall>p. p \<noteq> rootPath \<longrightarrow> cached_doc p s' = cached_doc p s)
       \<and> ((\<forall>sm. out \<noteq> Refreshed sm) \<longrightarrow> cached_doc rootPath s' = None)
       \<and> (\<forall>sm. out = Refreshed sm \<longrightarrow>
             (\<exists>doc. cached_doc rootPath s' = Some doc \<and> uploads (issued s s') = [doc]))"
proof -
  from miss have c0: "cache s rootPath = None" by (simp add: getCachedMetaInfo_def)
  obtain res s2 where load: "load_metaInfo e rootPath s = (res, s2)"
    by (cases "load_metaInfo e rootPath s")
  from load_metaInfo_frame(1) [OF load] have c2: "cache s2 = cache s" .
  from load_metaInfo_hidden [OF c0 load] obtain evs0 where
    t0: "trace s2 = trace s @ evs0" "\<forall>x \<in> set evs0. snd x = None" by blast
  have old: "\<forall>b < next_ref s. store s2 b = store s b"
    using load_metaInfo_frame(2) [OF load] .
  show ?thesis
  proof (cases res)
    case Throws
    with load run have o: "out = RefreshFailed" "s' = s2" by (simp_all add: POST_def)
    have "cached_doc p s' = cached_doc p s" for p
      using same_cached [of s' p s] o(2) c2 old exist by auto
    moreover have "cached_doc rootPath s = None"
      using c0 by (simp add: cached_doc_def getCachedMetaInfo_def)
    moreover have "\<forall>d \<in> set (snapshots s s'). d = None"
      using t0 o(2) by (auto simp: snapshots_def)
    ultimately show ?thesis using o(1) by simp
  next
    case (Returns a)
    with load have load': "load_metaInfo e rootPath s = (Returns a, s2)" by simp
    from load_metaInfo_miss_new(1) [OF miss load'] have a: "a = next_ref s" .
    let ?s3 = "await rootPath (ListDir (list_body rootPath None None)) s2"
    have c3: "cache ?s3 rootPath = None" using c2 c0 by (simp add: await_fields)
    have t3: "trace ?s3 = trace s @ (evs0 @ [(ListDir (list_body rootPath None None), None)])"
      using t0(1) c2 c0 by (simp add: await_miss)
    from load' run show ?thesis
    proof (cases rule: POST_run)
      case unlisted
      from unlisted(2) have no: "\<forall>sm. out \<noteq> Refreshed sm" by auto
      from unlisted(3) t3 t0(2) have "\<forall>d \<in> set (snapshots s s'). d = None"
        by (auto simp: snapshots_def)
      moreover have same: "cached_doc p s' = cached_doc p s" for p
        using same_cached [of s' p s] unlisted(3) c2 old exist by (auto simp: await_fields)
      moreover have "cached_doc rootPath s = None"
        using c0 by (simp add: cached_doc_def getCachedMetaInfo_def)
      ultimately show ?thesis using no by simp
    next
      case (listed resp n m s4)
      from visit_folders_frame [OF listed(3)]
      have f4: "cache s4 = cache s2" "\<forall>b. b \<noteq> a \<longrightarrow> store s4 b = store s2 b"
        by (simp_all add: await_fields)
      with c2 c0 have c4: "cache s4 rootPath = None" by simp
      from visit_folders_hidden [OF c3 listed(3)] obtain evs1 where
        t1: "trace s4 = trace ?s3 @ evs1" "\<forall>x \<in> set evs1. snd x = None" by blast
      from persist_hidden [OF c4 listed(4)] obtain evs2 where
        t2: "trace s' = trace s4 @ evs2" "\<forall>x \<in> set evs2. snd x = None" by blast
      have "trace s' = trace s @ (evs0 @ (ListDir (list_body rootPath None None), None) # evs1 @ evs2)"
        using t3 t1(1) t2(1) by simp
      then have "snapshots s s' = map snd (evs0 @ (ListDir (list_body rootPath None None), None) # evs1 @ evs2)"
        by (rule snapshots_extend)
      with t0(2) t1(2) t2(2) have hidden: "\<forall>d \<in> set (snapshots s s'). d = None" by auto
      have st: "\<forall>b. b \<noteq> a \<longrightarrow> store s' b = store s b"
        using persist_store(1) [OF listed(4)] f4(2) load_metaInfo_elsewhere [OF load'] by simp
      have kept: "store s' b = store s b" if "cache s p = Some b" for p b
      proof -
        from exist that have "b < next_ref s" by blast
        with a have "b \<noteq> a" by simp
        with st show ?thesis by simp
      qed
      have others: "cached_doc p s' = cached_doc p s" if "p \<noteq> rootPath" for p
      proof (cases "uploadFile e (Suc (tick s4)) (metainfoPath rootPath)
                ((store s4 a)\<lparr>last_refresh := clock e (tick s4)\<rparr>)")
        case Throws
        from persist_failed(2) [OF listed(4) Throws] f4(1) c2 have "cache s' = cache s" by simp
        with kept show ?thesis
          using same_cached [of s' p s] by simp
      next
        case (Returns u)
        from persist_done(2) [OF listed(4) Returns] f4(1) c2 that
        have "cache s' p = cache s p" by simp
        with kept show ?thesis
          using same_cached [of s' p s] by simp
      qed
      have failed: "cached_doc rootPath s' = None" if "\<forall>sm. out \<noteq> Refreshed sm"
      proof (cases "uploadFile e (Suc (tick s4)) (metainfoPath rootPath)
                ((store s4 a)\<lparr>last_refresh := clock e (tick s4)\<rparr>)")
        case Throws
        from persist_failed(2) [OF listed(4) Throws] c4 show ?thesis
          by (simp add: cached_doc_def getCachedMetaInfo_def)
      next
        case (Returns u)
        from persist_done(1) [OF listed(4) Returns] that show ?thesis by simp
      qed
      have committed: "\<exists>doc. cached_doc rootPath s' = Some doc \<and> uploads (issued s s') = [doc]"
        if "out = Refreshed sm" for sm
        using persist_committed [of e rootPath a _ n m s4 sm s'] listed(4) that
          run_calls(2) [OF load' listed(3) listed(4)]
        by (simp add: cached_doc_def getCachedMetaInfo_def)
      from hidden others failed committed show ?thesis by blast
    qed
  qed
qed

theorem refresh_from_remote_is_atomic_witness:
  "getCachedMetaInfo ''/'' cold_state = None
   \<and> snapshots cold_state
         (snd (POST (sample_env always_movie [dir ''a'', dir ''b''] True) ''key'' ''/'' cold_state))
       = [None, None, None, None, None, None, None, None]
   \<and> map_option folder_names
         (cached_doc ''/''
            (snd (POST (sample_env always_movie [dir ''a'', dir ''b''] True) ''key'' ''/'' cold_state)))
       = Some [''a'', ''b'']
   \<and> cached_doc ''/''
         (snd (POST (sample_env always_movie [dir ''a'', dir ''b''] False) ''key'' ''/'' cold_state))
       = None"
  using refresh_from_remote_is_atomic
    [of "''/''" cold_state "sample_env always_movie [dir ''a'', dir ''b''] True" "''key''"
        "fst (POST (sample_env always_movie [dir ''a'', dir ''b''] True) ''key'' ''/'' cold_state)"
        "snd (POST (sample_env always_movie [dir ''a'', dir ''b''] True) ''key'' ''/'' cold_state)"]
  by (simp add: run_defs snapshots_def)

subsection \<open>A remote document that is not an object\<close>

text \<open>
  C4.  Stated: a run aborts only when the listing or the upload fails; every
  failure to load the existing document, a structurally invalid parsed value
  included, lets the run go on with a document without folders.  The code does
  not do this for a remote \<open>metainfo.json\<close> whose text is a JSON value that is
  truthy and not an object (a number, a string, \<open>true\<close>): the assignment
  \<open>metaInfo.folders = {}\<close> throws, the run answers with the failure and never
  lists the directory.  An object without \<open>folders\<close> does not stop the run, and
  the list route answers the same primitive with its empty result.
\<close>

theorem refresh_fails_on_primitive_document:
  "download (remote_file_env Primitive [dir ''a'']) 1 ''https://files/raw'' = HttpOk (Parsed Primitive)
   \<and> fst (POST (remote_file_env Primitive [dir ''a'']) ''key'' ''/'' cold_state) = RefreshFailed
   \<and> listed (issued cold_state
        (snd (POST (remote_file_env Primitive [dir ''a'']) ''key'' ''/'' cold_state))) = []
   \<and> (\<exists>sm. fst (POST (remote_file_env (Object NoFolders 7) [dir ''a'']) ''key'' ''/'' cold_state)
              = Refreshed sm)
   \<and> fst (GET (remote_file_env Primitive [dir ''a'']) ''/'' 1 20 cold_state) = Unavailable"
  by (simp add: run_defs GET_def)

text \<open>
  Every other failure to load a document leaves the run alive.  When the cache
  has no entry and the remote file gives neither a primitive nor an object with
  a usable \<open>folders\<close> (\<open>getFile\<close> throws or answers without code 200 or without a
  URL, the download fails, the text is not JSON, the value is falsy, or the
  object has no usable \<open>folders\<close>), the run starts from a document without
  folders, and it succeeds if the listing and the upload do.
\<close>

theorem refresh_survives_unusable_document:
  assumes miss: "getCachedMetaInfo rootPath s = None"
    and unusable: "\<not> (\<exists>resp v. fs_get e (tick s) (metainfoPath rootPath) = HttpOk resp
          \<and> get_code resp = 200 \<and> truthy (raw_url resp)
          \<and> download e (Suc (tick s)) (the (raw_url resp)) = HttpOk (Parsed v)
          \<and> (v = Primitive \<or> (\<exists>fs t. v = Object (Folders fs) t)))"
    and listing: "\<forall>t. \<exists>resp. fs_list e t (list_body rootPath None None) = HttpOk resp
          \<and> list_code resp = 200"
    and upload: "\<forall>t doc. fs_put e t (metainfoPath rootPath) doc = HttpOk ()"
  shows "\<exists>a s2 sm s'. load_metaInfo e rootPath s = (Returns a, s2)
           \<and> folders (store s2 a) = []
           \<and> POST e tmdbApiKey rootPath s = (Refreshed sm, s')"
proof -
  from load_metaInfo_unusable [OF miss unusable] obtain a s2 where
    load: "load_metaInfo e rootPath s = (Returns a, s2)" "folders (store s2 a) = []" by blast
  obtain out s' where run: "POST e tmdbApiKey rootPath s = (out, s')"
    by (cases "POST e tmdbApiKey rootPath s")
  from load(1) run have "\<exists>sm. out = Refreshed sm"
  proof (cases rule: POST_run)
    case unlisted
    with listing show ?thesis by blast
  next
    case (listed resp n m s4)
    have "uploadFile e (Suc (tick s4)) (metainfoPath rootPath)
              ((store s4 a)\<lparr>last_refresh := clock e (tick s4)\<rparr>) = Returns ()"
      using upload by (simp add: uploadFile_def)
    from persist_done(1) [OF listed(4) this] show ?thesis by simp
  qed
  with load run show ?thesis by blast
qed

theorem refresh_survives_unusable_document_witness:
  "getCachedMetaInfo ''/'' cold_state = None
   \<and> download (remote_file_env (Object NoFolders 7) [dir ''a'']) 1 ''https://files/raw''
       = HttpOk (Parsed (Object NoFolders 7))
   \<and> fst (POST (remote_file_env (Object NoFolders 7) [dir ''a'']) ''key'' ''/'' cold_state)
       = Refreshed \<lparr>sum_total = 1, sum_new = 1, sum_existing = 0, sum_errors = 0,
                    sum_last_refresh = 1006\<rparr>"
  using refresh_survives_unusable_document
    [of "''/''" cold_state "remote_file_env (Object NoFolders 7) [dir ''a'']" "''key''"]
  by (simp add: run_defs)

text \<open>
  A run that ends in a failure had one of three causes: the \<open>TypeError\<close> on a
  document that is not an object, a listing that failed, or an upload that
  failed.
\<close>

theorem refresh_failure_causes:
  assumes run: "POST e tmdbApiKey rootPath s = (out, s')"
    and failed: "out = RefreshFailed \<or> out = ListFailed"
  shows "fst (load_metaInfo e rootPath s) = Throws
       \<or> (\<exists>t. \<not> (\<exists>resp. fs_list e t (list_body rootPath None None) = HttpOk resp
                    \<and> list_code resp = 200))
       \<or> (\<exists>t doc. fs_put e t (metainfoPath rootPath) doc \<noteq> HttpOk ())"
proof (cases "load_metaInfo e rootPath s")
  case (Pair res s2)
  show ?thesis
  proof (cases res)
    case Throws
    with Pair show ?thesis by simp
  next
    case (Returns a)
    with Pair have load: "load_metaInfo e rootPath s = (Returns a, s2)" by simp
    from load run show ?thesis
    proof (cases rule: POST_run)
      case unlisted
      then show ?thesis by blast
    next
      case (listed resp n m s4)
      show ?thesis
      proof (cases "uploadFile e (Suc (tick s4)) (metainfoPath rootPath)
                ((store s4 a)\<lparr>last_refresh := clock e (tick s4)\<rparr>)")
        case Throws
        then have "fs_put e (Suc (tick s4)) (metainfoPath rootPath)
                ((store s4 a)\<lparr>last_refresh := clock e (tick s4)\<rparr>) \<noteq> HttpOk ()"
          by (auto simp: uploadFile_def split: reply.splits)
        then show ?thesis by blast
      next
        case (Returns u)
        from persist_done(1) [OF listed(4) Returns] failed show ?thesis by simp
      qed
    qed
  qed
qed

theorem refresh_failure_causes_witness:
  "fst (POST (sample_env always_movie [dir ''a''] False) ''key'' ''/'' cold_state) = RefreshFailed
   \<and> fs_put (sample_env always_movie [dir ''a''] False) 0 ''/metainfo.json''
        \<lparr>folders = [], last_refresh = 0\<rparr> \<noteq> HttpOk ()"
  using refresh_failure_causes
    [of "sample_env always_movie [dir ''a''] False" "''key''" "''/''" cold_state
        "fst (POST (sample_env always_movie [dir ''a''] False) ''key'' ''/'' cold_state)"
        "snd (POST (sample_env always_movie [dir ''a''] False) ''key'' ''/'' cold_state)"]
  by (simp add: run_defs)

subsection \<open>The list route\<close>

text \<open>
  C5, as amended.  \<open>page\<close> is 1-based.  For every cached document with 25
  folders, page 2 of size 10 has exactly 10 records, with total 25 and 3 pages
  in all, and page 4 of size 10 is empty.  For every positive page size, page 0
  and every page beyond the last one are empty.  Whatever the page and the page
  size, the answer is a page with total 25, never an error.  (A negative page
  is not covered: \<open>slice\<close> counts a negative index from the end of the list.)
\<close>

theorem list_pages:
  assumes hit: "getCachedMetaInfo rootPath s = Some a"
    and n: "length (folders (store s a)) = 25"
  shows "(\<exists>l. GET e rootPath 2 10 s = (Listing l, s)
             \<and> length (lp_list l) = 10 \<and> lp_total l = 25 \<and> lp_totalPages l = Some 3)
       \<and> records (fst (GET e rootPath 4 10 s)) = []
       \<and> (\<forall>page pageSize pages.
             0 < pageSize \<and> ceil_div 25 pageSize = Some pages \<and> (page = 0 \<or> pages < page)
             \<longrightarrow> records (fst (GET e rootPath page pageSize s)) = [])
       \<and> (\<forall>page pageSize. \<exists>l. GET e rootPath page pageSize s = (Listing l, s)
             \<and> lp_total l = 25)"
proof -
  let ?all = "sort_key (\<lambda>v. - lastUpdated v) (map to_video (folders (store s a)))"
  have len: "length ?all = 25" using n by simp
  have p2: "length (slice ?all 10 20) = 10"
    using len by (simp add: slice_length Let_def)
  have p4: "slice ?all 30 40 = []"
    using len by (simp add: slice_beyond)
  have second: "\<exists>l. GET e rootPath 2 10 s = (Listing l, s)
             \<and> length (lp_list l) = 10 \<and> lp_total l = 25 \<and> lp_totalPages l = Some 3"
    using p2 len by (simp add: GET_cached [OF hit] paginate_def Let_def ceil_div_def)
  have fourth: "records (fst (GET e rootPath 4 10 s)) = []"
    using p4 by (simp add: GET_cached [OF hit] paginate_def Let_def)
  have outside: "records (fst (GET e rootPath page pageSize s)) = []"
    if "0 < pageSize" "ceil_div 25 pageSize = Some pages" "page = 0 \<or> pages < page"
    for page pageSize pages
  proof (cases "page = 0")
    case True
    with that(1) show ?thesis
      using slice_page_zero [of pageSize ?all]
      by (simp add: GET_cached [OF hit] paginate_def Let_def)
  next
    case False
    with that have lt: "- ((- 25) div pageSize) < page" by (simp add: ceil_div_def)
    have "25 \<le> (page - 1) * pageSize"
    proof -
      let ?q = "(- 25) div pageSize"
      have "?q * pageSize + (- 25) mod pageSize = - 25" by simp
      moreover have "0 \<le> (- 25) mod pageSize" using that(1) by simp
      ultimately have floor: "?q * pageSize \<le> - 25" by linarith
      from lt have "1 - page \<le> ?q" by simp
      with that(1) have "(1 - page) * pageSize \<le> ?q * pageSize"
        by (simp add: mult_right_mono)
      with floor have "(1 - page) * pageSize \<le> - 25" by linarith
      then show ?thesis by (simp add: algebra_simps)
    qed
    moreover from this that(1) have "0 \<le> (page - 1) * pageSize" by simp
    ultimately have "slice ?all ((page - 1) * pageSize) ((page - 1) * pageSize + pageSize) = []"
      using len by (simp add: slice_beyond)
    then show ?thesis by (simp add: GET_cached [OF hit] paginate_def Let_def)
  qed
  have always: "\<exists>l. GET e rootPath page pageSize s = (Listing l, s) \<and> lp_total l = 25"
    for page pageSize
    using len by (simp add: GET_cached [OF hit] paginate_def Let_def)
  from second fourth outside always show ?thesis by blast
qed

theorem list_pages_witness:
  "getCachedMetaInfo ''/'' (warm_state library25) = Some 0
   \<and> length (folders (store (warm_state library25) 0)) = 25
   \<and> length (records (fst (GET (sample_env always_movie [] True) ''/'' 2 10 (warm_state library25)))) = 10
   \<and> records (fst (GET (sample_env always_movie [] True) ''/'' 4 10 (warm_state library25))) = []
   \<and> ceil_div 25 10 = Some 3
   \<and> records (fst (GET (sample_env always_movie [] True) ''/'' 0 10 (warm_state library25))) = []
   \<and> records (fst (GET (sample_env always_movie [] True) ''/'' 7 10 (warm_state library25))) = []"
  using list_pages [of "''/''" "warm_state library25" 0 "sample_env always_movie [] True"]
  by (auto simp: getCachedMetaInfo_def warm_state_def library25_def ceil_div_def)

text \<open>
  C5, as stated, fails for a negative page: with 25 folders, page \<open>-1\<close> of size 10
  is the slice from index 5 to index 15, which has 10 records.
\<close>

theorem negative_page_counterexample:
  "length (records (fst (GET (sample_env always_movie [] True) ''/'' (- 1) 10 (warm_state library25)))) = 10"
  by (simp add: GET_def getCachedMetaInfo_def warm_state_def paginate_def slice_def library25_def Let_def)

end
